theory Spec2Isabelle
  imports Complex_Main "HOL-Library.Sublist"
begin

section \<open>The text-to-speech cache of \<open>tts.py\<close>\<close>

text \<open>
  \<open>tts.py\<close> keeps synthesized audio in the directory \<open>tts_cache\<close>, one file per
  text, named by the SHA-256 digest of the text. The functions of the module are
  embedded here as state transformers over a model of that directory. Every call the
  module makes into \<open>os\<close>, \<open>hashlib\<close> and \<open>gTTS\<close>, and every \<open>print\<close>, is appended
  to a trace, so that "the backend was not invoked" is a statement about the trace.
\<close>

subsection \<open>Values\<close>

text \<open>A Python \<open>str\<close> is a sequence of Unicode code points, \<open>bytes\<close> a sequence of
  octets. File names, paths and language codes are ASCII and are written as \<open>string\<close>.\<close>

type_synonym str = "nat list"
type_synonym bytes = "nat list"

text \<open>The exceptions that the library calls of the module raise.\<close>

datatype exn = OSError | FileNotFoundError | UnicodeEncodeError | ValueError | gTTSError

text \<open>The value a Python function hands back: \<open>None\<close> or an integer.\<close>

datatype pyval = PyNone | PyInt int

text \<open>The lines the module prints. The exception text \<open>{e}\<close> is left out.\<close>

datatype message =
    Msg_tts_error         \<comment> \<open>\<open>TTS generation error: {e}\<close>\<close>
  | Msg_read_error        \<comment> \<open>\<open>Error reading audio file: {e}\<close>\<close>
  | Msg_cleared nat       \<comment> \<open>\<open>Cleared {len(files)} cached audio files\<close>\<close>
  | Msg_clear_error       \<comment> \<open>\<open>Error clearing cache: {e}\<close>\<close>
  | Msg_stats_error       \<comment> \<open>\<open>Error getting cache stats: {e}\<close>\<close>

datatype event =
    Call_exists string            \<comment> \<open>\<open>os.path.exists(path)\<close>\<close>
  | Call_makedirs string          \<comment> \<open>\<open>os.makedirs(path)\<close>\<close>
  | Call_sha256 bytes             \<comment> \<open>\<open>hashlib.sha256(data).hexdigest()\<close>\<close>
  | Call_gTTS str string bool    \<comment> \<open>\<open>gTTS(text=, lang=, slow=)\<close>\<close>
  | Call_save string              \<comment> \<open>\<open>tts.save(path)\<close>\<close>
  | Call_listdir string           \<comment> \<open>\<open>os.listdir(path)\<close>\<close>
  | Call_remove string            \<comment> \<open>\<open>os.remove(path)\<close>\<close>
  | Call_getsize string           \<comment> \<open>\<open>os.path.getsize(path)\<close>\<close>
  | Call_open string              \<comment> \<open>\<open>open(path, 'rb')\<close> and \<open>f.read()\<close>\<close>
  | Print message                 \<comment> \<open>\<open>print(...)\<close>\<close>

subsection \<open>The cache directory\<close>

text \<open>
  An entry of the directory has a name and its bytes; its size is the number of bytes.
  The four flags say which operating-system calls on this entry fail (denied by
  permissions, the entry being a directory or a dangling link, and so on):
  \<open>getsize_fails\<close> says that \<open>os.stat\<close> raises, so that \<open>os.path.getsize\<close> raises and
  \<open>os.path.exists\<close> is false although \<open>os.listdir\<close> lists the entry; \<open>remove_fails\<close> is
  for \<open>os.remove\<close>, \<open>open_fails\<close> for opening to read, \<open>write_fails\<close> for opening to write.
\<close>

record cache_file =
  fname :: string
  fdata :: bytes
  getsize_fails :: bool
  remove_fails :: bool
  open_fails :: bool
  write_fails :: bool

text \<open>
  \<open>cache_dir\<close> is \<open>None\<close> while \<open>tts_cache\<close> does not exist, and otherwise the files
  in the order in which \<open>os.listdir\<close> lists them.
\<close>

record world =
  cache_dir :: "cache_file list option"
  makedirs_fails :: bool
  listdir_fails :: bool
  trace :: "event list"

definition TTS_CACHE_DIR :: string where
  "TTS_CACHE_DIR = ''tts_cache''"

definition files :: "world \<Rightarrow> cache_file list" where
  "files w = (case cache_dir w of None \<Rightarrow> [] | Some fs \<Rightarrow> fs)"

text \<open>A directory holds at most one file of each name.\<close>

definition wf_world :: "world \<Rightarrow> bool" where
  "wf_world w = distinct (map fname (files w))"

definition emit :: "event \<Rightarrow> world \<Rightarrow> world" where
  "emit e w = w\<lparr>trace := trace w @ [e]\<rparr>"

text \<open>\<open>os.path.join\<close> of a directory and a name without separator, on POSIX.\<close>

definition os_path_join :: "string \<Rightarrow> string \<Rightarrow> string" where
  "os_path_join d f = d @ ''/'' @ f"

text \<open>The name that a path \<open>tts_cache/name\<close> gives to an entry of the cache directory.\<close>

definition name_in_cache_dir :: "string \<Rightarrow> string" where
  "name_in_cache_dir p = drop (length TTS_CACHE_DIR + 1) p"

text \<open>The file of the cache directory that a path designates.\<close>

definition lookup_path :: "string \<Rightarrow> world \<Rightarrow> cache_file option" where
  "lookup_path p w = find (\<lambda>f. os_path_join TTS_CACHE_DIR (fname f) = p) (files w)"

definition new_file :: "string \<Rightarrow> bytes \<Rightarrow> cache_file" where
  "new_file n bs = \<lparr>fname = n, fdata = bs, getsize_fails = False, remove_fails = False,
     open_fails = False, write_fails = False\<rparr>"

subsection \<open>The calls into \<open>os\<close>\<close>

text \<open>
  \<open>os.path.exists\<close> never raises: it calls \<open>os.stat\<close> and is false when that raises. It
  is true of the cache directory, when there is one, and of an entry of it on which
  \<open>os.stat\<close> succeeds; the model has no other paths.
\<close>

definition os_path_exists :: "string \<Rightarrow> world \<Rightarrow> bool \<times> world" where
  "os_path_exists p w =
     ((p = TTS_CACHE_DIR \<and> cache_dir w \<noteq> None)
        \<or> (case lookup_path p w of None \<Rightarrow> False | Some f \<Rightarrow> \<not> getsize_fails f),
      emit (Call_exists p) w)"

definition os_makedirs :: "string \<Rightarrow> world \<Rightarrow> (exn + unit) \<times> world" where
  "os_makedirs p w =
     (let w1 = emit (Call_makedirs p) w in
      if makedirs_fails w1 \<or> cache_dir w1 \<noteq> None then (Inl OSError, w1)
      else (Inr (), w1\<lparr>cache_dir := Some []\<rparr>))"

definition os_listdir :: "string \<Rightarrow> world \<Rightarrow> (exn + string list) \<times> world" where
  "os_listdir p w =
     (let w1 = emit (Call_listdir p) w in
      case cache_dir w1 of
        None \<Rightarrow> (Inl FileNotFoundError, w1)
      | Some fs \<Rightarrow> if listdir_fails w1 then (Inl OSError, w1) else (Inr (map fname fs), w1))"

definition os_remove :: "string \<Rightarrow> world \<Rightarrow> (exn + unit) \<times> world" where
  "os_remove p w =
     (let w1 = emit (Call_remove p) w in
      case lookup_path p w1 of
        None \<Rightarrow> (Inl FileNotFoundError, w1)
      | Some f \<Rightarrow>
          if remove_fails f then (Inl OSError, w1)
          else (Inr (), w1\<lparr>cache_dir :=
                  Some (filter (\<lambda>g. os_path_join TTS_CACHE_DIR (fname g) \<noteq> p) (files w1))\<rparr>))"

definition os_path_getsize :: "string \<Rightarrow> world \<Rightarrow> (exn + nat) \<times> world" where
  "os_path_getsize p w =
     (let w1 = emit (Call_getsize p) w in
      case lookup_path p w1 of
        None \<Rightarrow> (Inl FileNotFoundError, w1)
      | Some f \<Rightarrow> if getsize_fails f then (Inl OSError, w1) else (Inr (length (fdata f)), w1))"

text \<open>\<open>with open(path, 'rb') as f: return f.read()\<close>\<close>

definition open_read :: "string \<Rightarrow> world \<Rightarrow> (exn + bytes) \<times> world" where
  "open_read p w =
     (let w1 = emit (Call_open p) w in
      case lookup_path p w1 of
        None \<Rightarrow> (Inl FileNotFoundError, w1)
      | Some f \<Rightarrow> if open_fails f then (Inl OSError, w1) else (Inr (fdata f), w1))"

text \<open>
  What opening a path of the cache directory with mode \<open>'wb'\<close> and writing \<open>bs\<close> leaves:
  the entry that the path designates holds \<open>bs\<close> in place of what it held, and
  \<open>os.stat\<close> succeeds on it, as on any path that could be opened; or, when the directory
  has no such entry, one is created after the others.
\<close>

fun write_file :: "string \<Rightarrow> bytes \<Rightarrow> cache_file list \<Rightarrow> cache_file list" where
  "write_file p bs [] = [new_file (name_in_cache_dir p) bs]"
| "write_file p bs (f # fs) =
     (if os_path_join TTS_CACHE_DIR (fname f) = p
      then f\<lparr>fdata := bs, getsize_fails := False\<rparr> # fs
      else f # write_file p bs fs)"

text \<open>Whether opening the path to write raises: the entry is there and denies it.\<close>

definition write_denied :: "string \<Rightarrow> world \<Rightarrow> bool" where
  "write_denied p w = (case lookup_path p w of None \<Rightarrow> False | Some f \<Rightarrow> write_fails f)"

subsection \<open>The library calls: \<open>str\<close>, \<open>hashlib\<close>, \<open>gTTS\<close>\<close>

text \<open>\<open>str.isspace\<close> of one code point: the whitespace of the Unicode database.\<close>

definition isspace :: "nat \<Rightarrow> bool" where
  "isspace c =
     ((9 \<le> c \<and> c \<le> 13) \<or> (28 \<le> c \<and> c \<le> 32) \<or> c = 133 \<or> c = 160 \<or> c = 5760
      \<or> (8192 \<le> c \<and> c \<le> 8202) \<or> c = 8232 \<or> c = 8233 \<or> c = 8239 \<or> c = 8287
      \<or> c = 12288)"

definition strip :: "str \<Rightarrow> str" where
  "strip t = rev (dropWhile isspace (rev (dropWhile isspace t)))"

definition endswith :: "string \<Rightarrow> string \<Rightarrow> bool" where
  "endswith s suf = (take (length suf) (rev s) = rev suf)"

text \<open>\<open>text.encode('utf-8')\<close>: a surrogate code point cannot be encoded.\<close>

definition utf8_char :: "nat \<Rightarrow> exn + bytes" where
  "utf8_char c =
     (if c < 128 then Inr [c]
      else if c < 2048 then Inr [192 + c div 64, 128 + c mod 64]
      else if 55296 \<le> c \<and> c \<le> 57343 then Inl UnicodeEncodeError
      else if c < 65536 then Inr [224 + c div 4096, 128 + (c div 64) mod 64, 128 + c mod 64]
      else if c < 1114112 then
        Inr [240 + c div 262144, 128 + (c div 4096) mod 64, 128 + (c div 64) mod 64,
             128 + c mod 64]
      else Inl UnicodeEncodeError)"

fun encode_utf8 :: "str \<Rightarrow> exn + bytes" where
  "encode_utf8 [] = Inr []"
| "encode_utf8 (c # cs) =
     (case utf8_char c of
        Inl e \<Rightarrow> Inl e
      | Inr b \<Rightarrow> (case encode_utf8 cs of Inl e \<Rightarrow> Inl e | Inr bs \<Rightarrow> Inr (b @ bs)))"

text \<open>
  \<open>hashlib.sha256(data).hexdigest()\<close> is a function of the library: the model takes it
  as the parameter \<open>sha\<close>, from bytes to the hexadecimal digest.
\<close>

definition hashlib_sha256_hexdigest ::
  "(bytes \<Rightarrow> string) \<Rightarrow> bytes \<Rightarrow> world \<Rightarrow> string \<times> world" where
  "hashlib_sha256_hexdigest sha bs w = (sha bs, emit (Call_sha256 bs) w)"

text \<open>
  The synthesis backend is the library \<open>gTTS\<close>: the model takes it as the parameter
  \<open>gtts\<close>. The constructor \<open>gTTS(text=, lang=, slow=)\<close> raises or yields an object;
  \<open>save\<close> on that object is given the final path and either completes, the file
  holding the audio, or raises, having written nothing or having left a file with what
  it wrote so far. When the path cannot be opened to write, \<open>save\<close> raises and nothing is
  written.
\<close>

datatype tts_object =
    Save_ok bytes
  | Save_raises "bytes option"

type_synonym backend = "str \<Rightarrow> string \<Rightarrow> bool \<Rightarrow> exn + tts_object"

definition gTTS ::
  "backend \<Rightarrow> str \<Rightarrow> string \<Rightarrow> bool \<Rightarrow> world \<Rightarrow> (exn + tts_object) \<times> world" where
  "gTTS gtts text lang slow w = (gtts text lang slow, emit (Call_gTTS text lang slow) w)"

definition tts_save :: "tts_object \<Rightarrow> string \<Rightarrow> world \<Rightarrow> (exn + unit) \<times> world" where
  "tts_save tts p w =
     (let w1 = emit (Call_save p) w in
      case cache_dir w1 of
        None \<Rightarrow> (Inl FileNotFoundError, w1)
      | Some fs \<Rightarrow>
          if write_denied p w1 then (Inl OSError, w1)
          else
            (case tts of
               Save_ok bs \<Rightarrow> (Inr (), w1\<lparr>cache_dir := Some (write_file p bs fs)\<rparr>)
             | Save_raises None \<Rightarrow> (Inl gTTSError, w1)
             | Save_raises (Some part) \<Rightarrow>
                 (Inl gTTSError, w1\<lparr>cache_dir := Some (write_file p part fs)\<rparr>)))"

subsection \<open>Floats\<close>

text \<open>
  A Python \<open>float\<close> is an IEEE double; the model writes it as the rational number it
  is. The floats of this module are quotients and roundings of sums of file sizes. A
  file size is below \<open>2 ^ 63\<close> and a directory has fewer than \<open>2 ^ 64\<close> entries, so
  these floats are zero or lie between \<open>2 ^ - 20\<close> and \<open>2 ^ 107\<close>: no operation
  overflows or reaches the subnormal numbers, and a double is here a rational with at
  most 53 significant bits, with no bound on the exponent.
\<close>

text \<open>The number of binary digits of a natural number.\<close>

fun bit_length :: "nat \<Rightarrow> nat" where
  "bit_length n = (if n = 0 then 0 else Suc (bit_length (n div 2)))"

text \<open>The exponent \<open>e\<close> with \<open>2 ^ e \<le> q < 2 ^ (e + 1)\<close>, for positive \<open>q\<close>.\<close>

definition ilog2 :: "rat \<Rightarrow> int" where
  "ilog2 q = (if 1 \<le> q then int (bit_length (nat \<lfloor>q\<rfloor>)) - 1
              else - int (bit_length (nat (\<lceil>1 / q\<rceil> - 1))))"

text \<open>The nearest integer, a tie going to the even one.\<close>

definition round_half_even :: "rat \<Rightarrow> int" where
  "round_half_even y =
     (let f = \<lfloor>y\<rfloor>; d = y - of_int f
      in if d < 1 / 2 then f else if 1 / 2 < d then f + 1 else if even f then f else f + 1)"

text \<open>The double nearest to a non-negative rational, a tie going to the even
  significand: the rounding of every float operation below.\<close>

definition nearest_double :: "rat \<Rightarrow> rat" where
  "nearest_double q =
     (if q = 0 then 0
      else let u = 2 powi (ilog2 q - 52) in of_int (round_half_even (q / u)) * u)"

text \<open>\<open>a / b\<close> on integers: the double nearest to the quotient.\<close>

definition py_truediv :: "nat \<Rightarrow> nat \<Rightarrow> rat" where
  "py_truediv a b = nearest_double (of_nat a / of_nat b)"

text \<open>
  \<open>round(x, ndigits)\<close> on a float: the exact value of \<open>x\<close> is rounded to the nearest
  multiple of \<open>10 ^ - ndigits\<close>, a tie going to the even multiple, and the result is the
  double nearest to that decimal.
\<close>

definition round_decimal :: "rat \<Rightarrow> nat \<Rightarrow> rat" where
  "round_decimal x ndigits = of_int (round_half_even (x * 10 ^ ndigits)) / 10 ^ ndigits"

definition py_round :: "rat \<Rightarrow> nat \<Rightarrow> rat" where
  "py_round x ndigits = nearest_double (round_decimal x ndigits)"

subsection \<open>The module\<close>

definition ensure_cache_dir :: "world \<Rightarrow> (exn + unit) \<times> world" where
  "ensure_cache_dir w =
     (case os_path_exists TTS_CACHE_DIR w of
        (True, w1) \<Rightarrow> (Inr (), w1)
      | (False, w1) \<Rightarrow> os_makedirs TTS_CACHE_DIR w1)"

definition get_text_hash :: "(bytes \<Rightarrow> string) \<Rightarrow> str \<Rightarrow> world \<Rightarrow> (exn + string) \<times> world" where
  "get_text_hash sha text w =
     (case encode_utf8 text of
        Inl e \<Rightarrow> (Inl e, w)
      | Inr bs \<Rightarrow> (case hashlib_sha256_hexdigest sha bs w of (h, w1) \<Rightarrow> (Inr h, w1)))"

definition text_to_speech ::
  "(bytes \<Rightarrow> string) \<Rightarrow> backend \<Rightarrow> str \<Rightarrow> string \<Rightarrow> bool \<Rightarrow> world
     \<Rightarrow> (exn + string option) \<times> world" where
  "text_to_speech sha gtts text language slow w =
     (if text = [] \<or> strip text = [] then (Inr None, w)
      else
        case ensure_cache_dir w of
          (Inl e, w1) \<Rightarrow> (Inl e, w1)
        | (Inr u, w1) \<Rightarrow>
            (case get_text_hash sha text w1 of
               (Inl e, w2) \<Rightarrow> (Inl e, w2)
             | (Inr text_hash, w2) \<Rightarrow>
                 (let cache_filename = text_hash @ ''.mp3'';
                      cache_path = os_path_join TTS_CACHE_DIR cache_filename
                  in case os_path_exists cache_path w2 of
                       (True, w3) \<Rightarrow> (Inr (Some cache_path), w3)
                     | (False, w3) \<Rightarrow>
                         (case gTTS gtts text language slow w3 of
                            (Inl e, w4) \<Rightarrow> (Inr None, emit (Print Msg_tts_error) w4)
                          | (Inr tts, w4) \<Rightarrow>
                              (case tts_save tts cache_path w4 of
                                 (Inl e, w5) \<Rightarrow> (Inr None, emit (Print Msg_tts_error) w5)
                               | (Inr u, w5) \<Rightarrow> (Inr (Some cache_path), w5))))))"

definition text_to_speech_bytes ::
  "(bytes \<Rightarrow> string) \<Rightarrow> backend \<Rightarrow> str \<Rightarrow> string \<Rightarrow> bool \<Rightarrow> world
     \<Rightarrow> (exn + bytes option) \<times> world" where
  "text_to_speech_bytes sha gtts text language slow w =
     (case text_to_speech sha gtts text language slow w of
        (Inl e, w1) \<Rightarrow> (Inl e, w1)
      | (Inr None, w1) \<Rightarrow> (Inr None, w1)
      | (Inr (Some audio_path), w1) \<Rightarrow>
          (if audio_path = [] then (Inr None, w1)
           else
             case os_path_exists audio_path w1 of
               (False, w2) \<Rightarrow> (Inr None, w2)
             | (True, w2) \<Rightarrow>
                 (case open_read audio_path w2 of
                    (Inl e, w3) \<Rightarrow> (Inr None, emit (Print Msg_read_error) w3)
                  | (Inr bs, w3) \<Rightarrow> (Inr (Some bs), w3))))"

text \<open>The loop \<open>for filename in files: os.remove(os.path.join(TTS_CACHE_DIR, filename))\<close>:
  the first removal that raises ends it.\<close>

fun remove_files :: "string list \<Rightarrow> world \<Rightarrow> (exn + unit) \<times> world" where
  "remove_files [] w = (Inr (), w)"
| "remove_files (filename # rest) w =
     (case os_remove (os_path_join TTS_CACHE_DIR filename) w of
        (Inl e, w1) \<Rightarrow> (Inl e, w1)
      | (Inr u, w1) \<Rightarrow> remove_files rest w1)"

definition clear_cache :: "int option \<Rightarrow> world \<Rightarrow> pyval \<times> world" where
  "clear_cache max_files w =
     (case os_path_exists TTS_CACHE_DIR w of
        (False, w1) \<Rightarrow> (PyNone, w1)
      | (True, w1) \<Rightarrow>
          (case os_listdir TTS_CACHE_DIR w1 of
             (Inl e, w2) \<Rightarrow> (PyNone, emit (Print Msg_clear_error) w2)
           | (Inr names, w2) \<Rightarrow>
               (let fls = filter (\<lambda>f. endswith f ''.mp3'') names
                in if max_files \<noteq> None \<and> int (length fls) \<le> the max_files then (PyNone, w2)
                   else
                     case remove_files fls w2 of
                       (Inl e, w3) \<Rightarrow> (PyNone, emit (Print Msg_clear_error) w3)
                     | (Inr u, w3) \<Rightarrow> (PyNone, emit (Print (Msg_cleared (length fls))) w3))))"

text \<open>\<open>sum(os.path.getsize(os.path.join(TTS_CACHE_DIR, f)) for f in files)\<close>, the running
  total in \<open>acc\<close>; the first size query that raises ends it.\<close>

fun sum_sizes :: "nat \<Rightarrow> string list \<Rightarrow> world \<Rightarrow> (exn + nat) \<times> world" where
  "sum_sizes acc [] w = (Inr acc, w)"
| "sum_sizes acc (f # rest) w =
     (case os_path_getsize (os_path_join TTS_CACHE_DIR f) w of
        (Inl e, w1) \<Rightarrow> (Inl e, w1)
      | (Inr n, w1) \<Rightarrow> sum_sizes (acc + n) rest w1)"

record stats =
  file_count :: nat
  total_size_mb :: rat

definition get_cache_stats :: "world \<Rightarrow> stats \<times> world" where
  "get_cache_stats w =
     (case os_path_exists TTS_CACHE_DIR w of
        (False, w1) \<Rightarrow> (\<lparr>file_count = 0, total_size_mb = 0\<rparr>, w1)
      | (True, w1) \<Rightarrow>
          (case os_listdir TTS_CACHE_DIR w1 of
             (Inl e, w2) \<Rightarrow>
               (\<lparr>file_count = 0, total_size_mb = 0\<rparr>, emit (Print Msg_stats_error) w2)
           | (Inr names, w2) \<Rightarrow>
               (let fls = filter (\<lambda>f. endswith f ''.mp3'') names
                in case sum_sizes 0 fls w2 of
                     (Inl e, w3) \<Rightarrow>
                       (\<lparr>file_count = 0, total_size_mb = 0\<rparr>, emit (Print Msg_stats_error) w3)
                   | (Inr total_size, w3) \<Rightarrow>
                       (\<lparr>file_count = length fls,
                         total_size_mb = py_round (py_truediv total_size (1024 * 1024)) 2\<rparr>,
                        w3))))"

subsection \<open>Observations on a world\<close>

text \<open>The path under which \<open>text_to_speech\<close> keeps the audio of a text whose UTF-8
  encoding is \<open>bs\<close> (lines 57 to 59 of \<open>tts.py\<close>).\<close>

definition cache_path :: "(bytes \<Rightarrow> string) \<Rightarrow> bytes \<Rightarrow> string" where
  "cache_path sha bs = os_path_join TTS_CACHE_DIR (sha bs @ ''.mp3'')"

text \<open>The number of times the backend constructor has been called.\<close>

definition backend_calls :: "world \<Rightarrow> nat" where
  "backend_calls w =
     length (filter (\<lambda>e. case e of Call_gTTS t l s \<Rightarrow> True | _ \<Rightarrow> False) (trace w))"

text \<open>The lines printed so far.\<close>

definition printed :: "world \<Rightarrow> message list" where
  "printed w = concat (map (\<lambda>e. case e of Print m \<Rightarrow> [m] | _ \<Rightarrow> []) (trace w))"

text \<open>The files that \<open>clear_cache\<close> and \<open>get_cache_stats\<close> select, and the others.\<close>

definition mp3_files :: "world \<Rightarrow> cache_file list" where
  "mp3_files w = filter (\<lambda>f. endswith (fname f) ''.mp3'') (files w)"

definition other_files :: "world \<Rightarrow> cache_file list" where
  "other_files w = filter (\<lambda>f. \<not> endswith (fname f) ''.mp3'') (files w)"

text \<open>
  An entry \<open>g\<close> found after an operation where \<open>f\<close> was before it: it has the name of
  \<open>f\<close>, and is \<open>f\<close> itself when \<open>f\<close> existed for \<open>os.path.exists\<close>.
\<close>

definition kept :: "cache_file \<Rightarrow> cache_file \<Rightarrow> bool" where
  "kept f g = (fname g = fname f \<and> (getsize_fails f \<or> g = f))"

text \<open>The bytes that the selected files hold together.\<close>

definition total_bytes :: "world \<Rightarrow> nat" where
  "total_bytes w = sum_list (map (\<lambda>f. length (fdata f)) (mp3_files w))"

text \<open>The world with every file not ending in \<open>.mp3\<close> taken out of the cache directory.\<close>

definition only_mp3 :: "world \<Rightarrow> world" where
  "only_mp3 w = w\<lparr>cache_dir := map_option (filter (\<lambda>f. endswith (fname f) ''.mp3'')) (cache_dir w)\<rparr>"

subsection \<open>Concrete inputs\<close>

text \<open>A stand-in for SHA-256 in the concrete evaluations: the hexadecimal spelling of
  the bytes themselves.\<close>

definition hex_digest :: "bytes \<Rightarrow> string" where
  "hex_digest bs =
     concat (map (\<lambda>b. [''0123456789abcdef'' ! (b div 16), ''0123456789abcdef'' ! (b mod 16)]) bs)"

text \<open>A world without the cache directory, and one whose directory holds the given files;
  no operating-system call fails in either.\<close>

definition no_cache_dir :: world where
  "no_cache_dir = \<lparr>cache_dir = None, makedirs_fails = False, listdir_fails = False, trace = []\<rparr>"

definition world_of :: "cache_file list \<Rightarrow> world" where
  "world_of fs = \<lparr>cache_dir = Some fs, makedirs_fails = False, listdir_fails = False, trace = []\<rparr>"

text \<open>A backend that gives the same outcome for every request, and one whose audio spells
  out the request: the language code, the rate flag, the text.\<close>

definition backend_of :: "exn + tts_object \<Rightarrow> backend" where
  "backend_of r t l s = r"

definition echo_backend :: backend where
  "echo_backend t l s = Inr (Save_ok (map of_char l @ [if s then 1 else 0] @ t))"

text \<open>\<open>n\<close> zero bytes; a file on which every call fails; a world whose directory cannot be
  listed.\<close>

definition blob :: "nat \<Rightarrow> bytes" where
  "blob n = replicate n 0"

definition unlistable :: "world \<Rightarrow> world" where
  "unlistable w = w\<lparr>listdir_fails := True\<rparr>"

definition locked_file :: "string \<Rightarrow> bytes \<Rightarrow> cache_file" where
  "locked_file n bs = \<lparr>fname = n, fdata = bs, getsize_fails = True, remove_fails = True,
     open_fails = True, write_fails = True\<rparr>"

section \<open>Properties\<close>

subsection \<open>Basic facts\<close>

declare bit_length.simps [simp del]

lemma cache_dir_emit [simp]: "cache_dir (emit e w) = cache_dir w"
  by (simp add: emit_def)

lemma makedirs_fails_emit [simp]: "makedirs_fails (emit e w) = makedirs_fails w"
  by (simp add: emit_def)

lemma listdir_fails_emit [simp]: "listdir_fails (emit e w) = listdir_fails w"
  by (simp add: emit_def)

lemma trace_emit [simp]: "trace (emit e w) = trace w @ [e]"
  by (simp add: emit_def)

lemma files_emit [simp]: "files (emit e w) = files w"
  by (simp add: files_def)

lemma lookup_path_emit [simp]: "lookup_path p (emit e w) = lookup_path p w"
  by (simp add: lookup_path_def)

lemma write_denied_emit [simp]: "write_denied p (emit e w) = write_denied p w"
  by (simp add: write_denied_def)

lemma write_denied_files: "files v = files w \<Longrightarrow> write_denied p v = write_denied p w"
  by (simp add: write_denied_def lookup_path_def)

lemma files_cache_dir_update [simp]: "files (w\<lparr>cache_dir := Some fs\<rparr>) = fs"
  by (simp add: files_def)

lemma files_Some: "cache_dir w = Some fs \<Longrightarrow> files w = fs"
  by (simp add: files_def)

lemma files_None: "cache_dir w = None \<Longrightarrow> files w = []"
  by (simp add: files_def)

lemma join_eq [simp]: "os_path_join d a = os_path_join d b \<longleftrightarrow> a = b"
  by (simp add: os_path_join_def)

lemma join_not_dir [simp]: "os_path_join TTS_CACHE_DIR n \<noteq> TTS_CACHE_DIR"
  by (simp add: os_path_join_def)

lemma name_in_cache_dir_join [simp]: "name_in_cache_dir (os_path_join TTS_CACHE_DIR n) = n"
  by (simp add: name_in_cache_dir_def os_path_join_def)

lemma lookup_path_join:
  "lookup_path (os_path_join TTS_CACHE_DIR n) w = find (\<lambda>f. fname f = n) (files w)"
  by (simp add: lookup_path_def)

lemma backend_calls_emit [simp]:
  "backend_calls (emit e w) = backend_calls w + (case e of Call_gTTS t l s \<Rightarrow> 1 | _ \<Rightarrow> 0)"
  by (cases e) (simp_all add: backend_calls_def)

lemma backend_calls_cache_dir_update [simp]:
  "backend_calls (w\<lparr>cache_dir := d\<rparr>) = backend_calls w"
  by (simp add: backend_calls_def)

lemma printed_emit [simp]:
  "printed (emit e w) = printed w @ (case e of Print m \<Rightarrow> [m] | _ \<Rightarrow> [])"
  by (cases e) (simp_all add: printed_def)

lemma printed_cache_dir_update [simp]: "printed (w\<lparr>cache_dir := d\<rparr>) = printed w"
  by (simp add: printed_def)

lemmas eval_defs = text_to_speech_def text_to_speech_bytes_def clear_cache_def get_cache_stats_def
  ensure_cache_dir_def get_text_hash_def hashlib_sha256_hexdigest_def gTTS_def tts_save_def
  os_path_exists_def os_makedirs_def os_listdir_def os_remove_def os_path_getsize_def open_read_def
  write_denied_def lookup_path_def files_def emit_def os_path_join_def name_in_cache_dir_def
  TTS_CACHE_DIR_def strip_def isspace_def endswith_def utf8_char_def hex_digest_def no_cache_dir_def
  world_of_def new_file_def backend_of_def cache_path_def backend_calls_def printed_def
  mp3_files_def other_files_def total_bytes_def only_mp3_def wf_world_def echo_backend_def
  unlistable_def locked_file_def Let_def

subsection \<open>Blank text\<close>

text \<open>\<open>text.strip()\<close> is empty exactly when every code point of the text is whitespace.\<close>

lemma strip_Nil_iff: "strip t = [] \<longleftrightarrow> list_all isspace t"
proof
  assume "strip t = []"
  then have a: "dropWhile isspace (rev (dropWhile isspace t)) = []"
    by (simp add: strip_def)
  show "list_all isspace t"
  proof (cases "dropWhile isspace t")
    case Nil
    then show ?thesis by (induction t) (auto split: if_splits)
  next
    case (Cons x xs)
    then have "\<not> isspace (hd (dropWhile isspace t))"
      using hd_dropWhile [of isspace t] by simp
    moreover from a have "\<forall>y\<in>set (dropWhile isspace t). isspace y"
      by (simp add: dropWhile_eq_Nil_conv)
    ultimately show ?thesis using Cons by simp
  qed
next
  assume "list_all isspace t"
  then have d: "dropWhile isspace t = []"
    by (induction t) auto
  show "strip t = []" unfolding strip_def d by simp
qed

text \<open>
  Claim C2. For a text that is empty or consists of whitespace only, \<open>text_to_speech\<close>
  returns \<open>None\<close> and leaves the world as it was, trace included: it has made no call
  to \<open>hashlib\<close>, to the backend or to the file system.
\<close>

theorem blank_text_returns_None_untouched:
  "text = [] \<or> list_all isspace text \<Longrightarrow>
   text_to_speech sha gtts text language slow w = (Inr None, w)"
  by (auto simp add: text_to_speech_def strip_Nil_iff)

theorem blank_text_returns_None_untouched_witness:
  "list_all isspace [32, 9, 12288]
   \<and> text_to_speech hex_digest (backend_of (Inr (Save_ok [73, 68, 51]))) [32, 9, 12288] ''en'' False
        no_cache_dir = (Inr None, no_cache_dir)
   \<and> text_to_speech hex_digest (backend_of (Inr (Save_ok [73, 68, 51]))) [] ''en'' False
        (world_of []) = (Inr None, world_of [])"
  using blank_text_returns_None_untouched
    [of "[32, 9, 12288]" hex_digest "backend_of (Inr (Save_ok [73, 68, 51]))" "''en''" False
        no_cache_dir]
    blank_text_returns_None_untouched
    [of "[]" hex_digest "backend_of (Inr (Save_ok [73, 68, 51]))" "''en''" False "world_of []"]
  by (simp add: isspace_def)

subsection \<open>Hit and miss\<close>

lemma ensure_cache_dir_exists:
  "cache_dir w = Some fs \<Longrightarrow> ensure_cache_dir w = (Inr (), emit (Call_exists TTS_CACHE_DIR) w)"
  by (simp add: ensure_cache_dir_def os_path_exists_def)

lemma ensure_cache_dir_missing:
  "cache_dir w = None \<Longrightarrow> ensure_cache_dir w =
     (if makedirs_fails w
      then (Inl OSError, emit (Call_makedirs TTS_CACHE_DIR) (emit (Call_exists TTS_CACHE_DIR) w))
      else (Inr (), (emit (Call_makedirs TTS_CACHE_DIR) (emit (Call_exists TTS_CACHE_DIR) w))
                      \<lparr>cache_dir := Some []\<rparr>))"
  by (simp add: ensure_cache_dir_def os_path_exists_def lookup_path_def files_def os_makedirs_def
      Let_def)

lemma ensure_cache_dir_ok:
  assumes "cache_dir w \<noteq> None \<or> \<not> makedirs_fails w"
  shows "fst (ensure_cache_dir w) = Inr ()"
    and "cache_dir (snd (ensure_cache_dir w)) = Some (files w)"
    and "backend_calls (snd (ensure_cache_dir w)) = backend_calls w"
  using assms
  by (cases "cache_dir w"; simp add: ensure_cache_dir_missing ensure_cache_dir_exists files_def)+

lemma printed_ensure_cache_dir [simp]: "printed (snd (ensure_cache_dir w)) = printed w"
  by (cases "cache_dir w")
     (simp_all add: ensure_cache_dir_missing ensure_cache_dir_exists)

lemma write_file_fresh:
  "find (\<lambda>f. fname f = n) fs = None \<Longrightarrow>
   write_file (os_path_join TTS_CACHE_DIR n) bs fs = fs @ [new_file n bs]"
  by (induction fs) (auto split: if_splits)

lemma find_append_new:
  "find (\<lambda>f. fname f = n) fs = None \<Longrightarrow>
   find (\<lambda>f. fname f = n) (fs @ [new_file n bs]) = Some (new_file n bs)"
  by (induction fs) (auto simp: new_file_def split: if_splits)

text \<open>After a write the path exists.\<close>

lemma find_write_file:
  "\<exists>g. find (\<lambda>f. fname f = n) (write_file (os_path_join TTS_CACHE_DIR n) bs fs) = Some g
       \<and> \<not> getsize_fails g"
  by (induction fs) (auto simp: new_file_def)

lemma exists_after_write:
  "fst (os_path_exists (os_path_join TTS_CACHE_DIR n)
         (w\<lparr>cache_dir := Some (write_file (os_path_join TTS_CACHE_DIR n) bs fs)\<rparr>))"
  using find_write_file [of n bs fs] by (auto simp: os_path_exists_def lookup_path_join)

text \<open>A write changes at most the entry that the path designates.\<close>

lemma kept_refl [simp]: "kept f f"
  by (simp add: kept_def)

lemma list_all2_kept_refl [simp]: "list_all2 kept fs fs"
  by (simp add: list_all2_refl)

lemma write_file_kept:
  "(case find (\<lambda>f. fname f = n) fs of None \<Rightarrow> True | Some f \<Rightarrow> getsize_fails f) \<Longrightarrow>
   list_all2 kept fs (take (length fs) (write_file (os_path_join TTS_CACHE_DIR n) bs fs))"
  by (induction fs) (auto simp: kept_def)

lemma not_exists_iff:
  "\<not> fst (os_path_exists (os_path_join TTS_CACHE_DIR n) w) \<longleftrightarrow>
   (case find (\<lambda>f. fname f = n) (files w) of None \<Rightarrow> True | Some f \<Rightarrow> getsize_fails f)"
  by (simp add: os_path_exists_def lookup_path_join split: option.splits)

lemma tts_hit:
  assumes "text \<noteq> []" "strip text \<noteq> []" "encode_utf8 text = Inr bs"
    and "fst (os_path_exists (cache_path sha bs) w)"
  shows "text_to_speech sha gtts text language slow w =
     (Inr (Some (cache_path sha bs)),
      emit (Call_exists (cache_path sha bs)) (emit (Call_sha256 bs)
        (emit (Call_exists TTS_CACHE_DIR) w)))"
proof -
  from assms(4) obtain fs where "cache_dir w = Some fs"
    by (cases "cache_dir w")
       (auto simp: os_path_exists_def cache_path_def lookup_path_def files_def)
  then show ?thesis using assms
    by (simp add: text_to_speech_def ensure_cache_dir_exists get_text_hash_def
        hashlib_sha256_hexdigest_def os_path_exists_def Let_def cache_path_def)
qed

text \<open>The call on a text whose path does not exist, the directory being there or
  creatable.\<close>

lemma tts_no_hit:
  assumes "text \<noteq> []" "strip text \<noteq> []" "encode_utf8 text = Inr bs"
    and "\<not> fst (os_path_exists (cache_path sha bs) w)"
    and "cache_dir w \<noteq> None \<or> \<not> makedirs_fails w"
  shows "text_to_speech sha gtts text language slow w =
      (let w3 = emit (Call_exists (cache_path sha bs)) (emit (Call_sha256 bs)
                  (snd (ensure_cache_dir w)));
           w5 = emit (Call_save (cache_path sha bs)) (emit (Call_gTTS text language slow) w3)
       in case gtts text language slow of
            Inl e \<Rightarrow> (Inr None, emit (Print Msg_tts_error) (emit (Call_gTTS text language slow) w3))
          | Inr tts \<Rightarrow>
              if write_denied (cache_path sha bs) w then (Inr None, emit (Print Msg_tts_error) w5)
              else
                (case tts of
                   Save_ok audio \<Rightarrow>
                     (Inr (Some (cache_path sha bs)),
                      w5\<lparr>cache_dir := Some (write_file (cache_path sha bs) audio (files w))\<rparr>)
                 | Save_raises None \<Rightarrow> (Inr None, emit (Print Msg_tts_error) w5)
                 | Save_raises (Some part) \<Rightarrow>
                     (Inr None,
                      emit (Print Msg_tts_error)
                        (w5\<lparr>cache_dir :=
                              Some (write_file (cache_path sha bs) part (files w))\<rparr>))))"
proof -
  obtain w1 where e: "ensure_cache_dir w = (Inr (), w1)"
    using ensure_cache_dir_ok(1) [OF assms(5)] by (cases "ensure_cache_dir w") auto
  then have c: "cache_dir w1 = Some (files w)"
    using ensure_cache_dir_ok(2) [OF assms(5)] by simp
  then have f: "files w1 = files w" by (rule files_Some)
  have x: "\<not> fst (os_path_exists (os_path_join TTS_CACHE_DIR (sha bs @ ''.mp3''))
                   (emit (Call_sha256 bs) w1))"
    using assms(4) f by (simp add: cache_path_def os_path_exists_def lookup_path_def)
  have d: "write_denied (os_path_join TTS_CACHE_DIR (sha bs @ ''.mp3'')) w1 =
           write_denied (os_path_join TTS_CACHE_DIR (sha bs @ ''.mp3'')) w"
    by (rule write_denied_files [OF f])
  have o: "os_path_exists (os_path_join TTS_CACHE_DIR (sha bs @ ''.mp3'')) (emit (Call_sha256 bs) w1)
      = (False, emit (Call_exists (os_path_join TTS_CACHE_DIR (sha bs @ ''.mp3'')))
                  (emit (Call_sha256 bs) w1))"
    using x by (simp add: os_path_exists_def)
  show ?thesis
    using assms(1-3) e c
    by (simp add: text_to_speech_def get_text_hash_def hashlib_sha256_hexdigest_def Let_def
        cache_path_def gTTS_def tts_save_def d o
        split: sum.splits tts_object.splits option.splits)
qed

lemma tts_miss:
  assumes "text \<noteq> []" "strip text \<noteq> []" "encode_utf8 text = Inr bs"
    and "lookup_path (cache_path sha bs) w = None"
    and "cache_dir w \<noteq> None \<or> \<not> makedirs_fails w"
  shows "text_to_speech sha gtts text language slow w =
      (let w3 = emit (Call_exists (cache_path sha bs)) (emit (Call_sha256 bs) (snd (ensure_cache_dir w)));
           w5 = emit (Call_save (cache_path sha bs)) (emit (Call_gTTS text language slow) w3)
       in case gtts text language slow of
          Inl e \<Rightarrow> (Inr None, emit (Print Msg_tts_error) (emit (Call_gTTS text language slow) w3))
        | Inr (Save_ok audio) \<Rightarrow> (Inr (Some (cache_path sha bs)),
             w5\<lparr>cache_dir := Some (files w @ [new_file (sha bs @ ''.mp3'') audio])\<rparr>)
        | Inr (Save_raises None) \<Rightarrow> (Inr None, emit (Print Msg_tts_error) w5)
        | Inr (Save_raises (Some part)) \<Rightarrow> (Inr None,
             emit (Print Msg_tts_error) (w5\<lparr>cache_dir := Some (files w @ [new_file (sha bs @ ''.mp3'') part])\<rparr>)))"
proof -
  have x: "\<not> fst (os_path_exists (cache_path sha bs) w)"
    using assms(4) by (simp add: os_path_exists_def cache_path_def os_path_join_def TTS_CACHE_DIR_def)
  have d: "\<not> write_denied (cache_path sha bs) w"
    using assms(4) by (simp add: write_denied_def)
  have l: "find (\<lambda>f. fname f = sha bs @ ''.mp3'') (files w) = None"
    using assms(4) by (simp add: cache_path_def lookup_path_join)
  have wf: "write_file (cache_path sha bs) a (files w) = files w @ [new_file (sha bs @ ''.mp3'') a]"
    for a unfolding cache_path_def by (rule write_file_fresh [OF l])
  show ?thesis
    unfolding tts_no_hit [OF assms(1-3) x assms(5)] Let_def
    using d by (simp add: wf split: sum.splits tts_object.splits option.splits)
qed

text \<open>What a call that returned a path tells about its input.\<close>

lemma tts_Some_cases:
  assumes "text_to_speech sha gtts text language slow w = (Inr (Some p), w1)"
  shows "text \<noteq> [] \<and> strip text \<noteq> [] \<and> (\<exists>bs. encode_utf8 text = Inr bs \<and> p = cache_path sha bs
     \<and> fst (os_path_exists (cache_path sha bs) w1) \<and> backend_calls w1 \<le> backend_calls w + 1)"
proof -
  have nb: "text \<noteq> []" "strip text \<noteq> []"
    using assms by (auto simp: text_to_speech_def)
  have "\<exists>bs. encode_utf8 text = Inr bs"
  proof (cases "encode_utf8 text")
    case (Inl e)
    with assms nb show ?thesis
      by (simp add: text_to_speech_def get_text_hash_def split: prod.splits sum.splits)
  next
    case (Inr bs)
    then show ?thesis by simp
  qed
  then obtain bs where enc: "encode_utf8 text = Inr bs" by blast
  show ?thesis
  proof (cases "fst (os_path_exists (cache_path sha bs) w)")
    case True
    from tts_hit [OF nb enc True, of gtts language slow] assms True nb enc
    show ?thesis by (auto simp: os_path_exists_def)
  next
    case False
    have av: "cache_dir w \<noteq> None \<or> \<not> makedirs_fails w"
    proof (rule ccontr)
      assume "\<not> ?thesis"
      then have "cache_dir w = None" "makedirs_fails w" by auto
      with assms nb show False
        by (simp add: text_to_speech_def ensure_cache_dir_missing)
    qed
    from tts_no_hit [OF nb enc False av, of gtts language slow] assms
    obtain audio where "gtts text language slow = Inr (Save_ok audio)"
      and "p = cache_path sha bs"
      and "w1 = (emit (Call_save (cache_path sha bs)) (emit (Call_gTTS text language slow)
             (emit (Call_exists (cache_path sha bs)) (emit (Call_sha256 bs) (snd (ensure_cache_dir w))))))
             \<lparr>cache_dir := Some (write_file (cache_path sha bs) audio (files w))\<rparr>"
      by (auto simp: Let_def split: sum.splits tts_object.splits option.splits if_splits)
    then show ?thesis using nb enc ensure_cache_dir_ok(3) [OF av]
      by (simp add: cache_path_def exists_after_write)
  qed
qed

text \<open>
  Claim C3. When the text is not blank and the path of its key exists, for
  \<open>os.path.exists\<close>, \<open>text_to_speech\<close> returns that path, and all it has done is to look at the
  directory, hash the text and look at the file: the backend is not called and the
  directory is unchanged. Hence, after a call that returned a path, the same call again
  returns the same path with no further backend call, so that the two calls together
  have called the backend at most once.
\<close>

theorem cache_hit_skips_backend:
  "(text \<noteq> [] \<and> strip text \<noteq> [] \<and> encode_utf8 text = Inr bs
      \<and> fst (os_path_exists (cache_path sha bs) w) \<longrightarrow>
      text_to_speech sha gtts text language slow w =
        (Inr (Some (cache_path sha bs)),
         w\<lparr>trace := trace w @ [Call_exists TTS_CACHE_DIR, Call_sha256 bs,
                                Call_exists (cache_path sha bs)]\<rparr>))
   \<and> (text_to_speech sha gtts text language slow w = (Inr (Some p), w1) \<longrightarrow>
        fst (text_to_speech sha gtts text language slow w1) = Inr (Some p)
        \<and> files (snd (text_to_speech sha gtts text language slow w1)) = files w1
        \<and> backend_calls (snd (text_to_speech sha gtts text language slow w1)) = backend_calls w1
        \<and> backend_calls w1 \<le> backend_calls w + 1)"
proof (intro conjI impI)
  assume "text \<noteq> [] \<and> strip text \<noteq> [] \<and> encode_utf8 text = Inr bs
      \<and> fst (os_path_exists (cache_path sha bs) w)"
  then show "text_to_speech sha gtts text language slow w =
        (Inr (Some (cache_path sha bs)),
         w\<lparr>trace := trace w @ [Call_exists TTS_CACHE_DIR, Call_sha256 bs,
                                Call_exists (cache_path sha bs)]\<rparr>)"
    using tts_hit [of "text" bs sha w gtts language slow] by (simp add: emit_def)
next
  assume a: "text_to_speech sha gtts text language slow w = (Inr (Some p), w1)"
  from tts_Some_cases [OF a] obtain bs where
    nb: "text \<noteq> []" "strip text \<noteq> []" and enc: "encode_utf8 text = Inr bs"
    and p: "p = cache_path sha bs" and l: "fst (os_path_exists (cache_path sha bs) w1)"
    and b: "backend_calls w1 \<le> backend_calls w + 1"
    by blast
  note h = tts_hit [OF nb enc l, of gtts language slow]
  show "fst (text_to_speech sha gtts text language slow w1) = Inr (Some p)"
    using h p by simp
  show "files (snd (text_to_speech sha gtts text language slow w1)) = files w1"
    using h by simp
  show "backend_calls (snd (text_to_speech sha gtts text language slow w1)) = backend_calls w1"
    using h by simp
  show "backend_calls w1 \<le> backend_calls w + 1" by (rule b)
qed

theorem cache_hit_skips_backend_witness:
  "strip [72, 105] \<noteq> [] \<and> encode_utf8 [72, 105] = Inr [72, 105]
   \<and> fst (os_path_exists (cache_path hex_digest [72, 105])
        (world_of [new_file ''4869.mp3'' [1, 2]]))
   \<and> text_to_speech hex_digest (backend_of (Inr (Save_ok [73, 68, 51]))) [72, 105] ''en'' False
      (world_of [new_file ''4869.mp3'' [1, 2]]) =
     (Inr (Some ''tts_cache/4869.mp3''),
      (world_of [new_file ''4869.mp3'' [1, 2]])
        \<lparr>trace := [Call_exists ''tts_cache'', Call_sha256 [72, 105],
                   Call_exists ''tts_cache/4869.mp3'']\<rparr>)
   \<and> fst (text_to_speech hex_digest (backend_of (Inr (Save_ok [73, 68, 51]))) [72, 105] ''en'' False
        no_cache_dir) = Inr (Some ''tts_cache/4869.mp3'')
   \<and> fst (text_to_speech hex_digest (backend_of (Inr (Save_ok [73, 68, 51]))) [72, 105] ''en'' False
        (snd (text_to_speech hex_digest (backend_of (Inr (Save_ok [73, 68, 51]))) [72, 105] ''en''
           False no_cache_dir))) = Inr (Some ''tts_cache/4869.mp3'')
   \<and> backend_calls (snd (text_to_speech hex_digest (backend_of (Inr (Save_ok [73, 68, 51])))
        [72, 105] ''en'' False
        (snd (text_to_speech hex_digest (backend_of (Inr (Save_ok [73, 68, 51]))) [72, 105] ''en''
           False no_cache_dir)))) = 1"
  using cache_hit_skips_backend
    [of "[72, 105]" "[72, 105]" hex_digest "world_of [new_file ''4869.mp3'' [1, 2]]"
        "backend_of (Inr (Save_ok [73, 68, 51]))" "''en''" False]
    cache_hit_skips_backend
    [of "[72, 105]" "[72, 105]" hex_digest no_cache_dir
        "backend_of (Inr (Save_ok [73, 68, 51]))" "''en''" False "''tts_cache/4869.mp3''"
        "snd (text_to_speech hex_digest (backend_of (Inr (Save_ok [73, 68, 51]))) [72, 105] ''en''
           False no_cache_dir)"]
  by (simp add: eval_defs)

text \<open>
  Claim C4. When the text is not blank, the file of its key is not in the cache
  directory (which exists or can be created) and the backend succeeds with \<open>audio\<close>,
  \<open>text_to_speech\<close> returns the path of the key; afterwards the directory holds, besides
  what it held, one file under the key whose bytes are \<open>audio\<close>, reading the returned
  path gives \<open>audio\<close>, and so does \<open>text_to_speech_bytes\<close>.
\<close>

theorem cache_miss_stores_backend_audio:
  assumes "text \<noteq> []" and "strip text \<noteq> []" and "encode_utf8 text = Inr bs"
    and "lookup_path (cache_path sha bs) w = None"
    and "cache_dir w \<noteq> None \<or> \<not> makedirs_fails w"
    and "gtts text language slow = Inr (Save_ok audio)"
  shows "fst (text_to_speech sha gtts text language slow w) = Inr (Some (cache_path sha bs))
    \<and> files (snd (text_to_speech sha gtts text language slow w)) =
        files w @ [new_file (sha bs @ ''.mp3'') audio]
    \<and> lookup_path (cache_path sha bs) (snd (text_to_speech sha gtts text language slow w)) =
        Some (new_file (sha bs @ ''.mp3'') audio)
    \<and> fst (open_read (cache_path sha bs) (snd (text_to_speech sha gtts text language slow w))) =
        Inr audio
    \<and> fst (text_to_speech_bytes sha gtts text language slow
             (snd (text_to_speech sha gtts text language slow w))) = Inr (Some audio)
    \<and> backend_calls (snd (text_to_speech sha gtts text language slow w)) = backend_calls w + 1"
proof -
  let ?n = "sha bs @ ''.mp3''"
  let ?w1 = "snd (text_to_speech sha gtts text language slow w)"
  note m = tts_miss [OF assms(1-5), of gtts language slow]
  have l: "find (\<lambda>f. fname f = ?n) (files w) = None"
    using assms(4) by (simp add: cache_path_def lookup_path_join)
  have r: "fst (text_to_speech sha gtts text language slow w) = Inr (Some (cache_path sha bs))"
    using m assms(6) by (simp add: Let_def)
  have f: "files ?w1 = files w @ [new_file ?n audio]"
    using m assms(6) by (simp add: Let_def)
  have lk: "lookup_path (cache_path sha bs) ?w1 = Some (new_file ?n audio)"
    using f l by (simp add: lookup_path_def cache_path_def find_append_new)
  have rd: "fst (open_read (cache_path sha bs) ?w1) = Inr audio"
    using lk by (simp add: open_read_def Let_def new_file_def)
  have b: "backend_calls ?w1 = backend_calls w + 1"
    using m assms(6) ensure_cache_dir_ok(3) [OF assms(5)] by (simp add: Let_def)
  have "fst (os_path_exists (cache_path sha bs) ?w1)"
    using lk by (simp add: os_path_exists_def new_file_def)
  note h = tts_hit [OF assms(1-3) this, of gtts language slow]
  have rb: "fst (text_to_speech_bytes sha gtts text language slow ?w1) = Inr (Some audio)"
    using lk by (simp add: text_to_speech_bytes_def h os_path_exists_def open_read_def Let_def
        new_file_def cache_path_def os_path_join_def)
  from r f lk rd rb b show ?thesis by blast
qed

theorem cache_miss_stores_backend_audio_witness:
  "strip [72, 105] \<noteq> [] \<and> encode_utf8 [72, 105] = Inr [72, 105]
   \<and> lookup_path (cache_path hex_digest [72, 105]) no_cache_dir = None
   \<and> \<not> makedirs_fails no_cache_dir
   \<and> fst (text_to_speech hex_digest (backend_of (Inr (Save_ok [73, 68, 51]))) [72, 105] ''en'' False
        no_cache_dir) = Inr (Some ''tts_cache/4869.mp3'')
   \<and> files (snd (text_to_speech hex_digest (backend_of (Inr (Save_ok [73, 68, 51]))) [72, 105]
        ''en'' False no_cache_dir)) = [new_file ''4869.mp3'' [73, 68, 51]]
   \<and> fst (text_to_speech_bytes hex_digest (backend_of (Inr (Save_ok [73, 68, 51]))) [72, 105]
        ''en'' False
        (snd (text_to_speech hex_digest (backend_of (Inr (Save_ok [73, 68, 51]))) [72, 105]
           ''en'' False no_cache_dir))) = Inr (Some [73, 68, 51])"
  using cache_miss_stores_backend_audio
    [of "[72, 105]" "[72, 105]" hex_digest no_cache_dir
        "backend_of (Inr (Save_ok [73, 68, 51]))" "''en''" False "[73, 68, 51]"]
  by (simp add: eval_defs)

text \<open>
  When the backend fails on a text whose key is not in the directory, \<open>text_to_speech\<close>
  returns \<open>None\<close> and prints the error. It neither writes through a temporary file nor
  removes anything afterwards: the directory is as before when the backend failed before
  creating the file, and otherwise holds in addition the file that \<open>save\<close> left under
  the key.
\<close>

lemma tts_backend_failure:
  assumes "text \<noteq> []" and "strip text \<noteq> []" and "encode_utf8 text = Inr bs"
    and "lookup_path (cache_path sha bs) w = None"
    and "cache_dir w \<noteq> None \<or> \<not> makedirs_fails w"
    and "\<forall>audio. gtts text language slow \<noteq> Inr (Save_ok audio)"
  shows "fst (text_to_speech sha gtts text language slow w) = Inr None
    \<and> files (snd (text_to_speech sha gtts text language slow w)) =
        files w @ (case gtts text language slow of
                     Inr (Save_raises (Some part)) \<Rightarrow> [new_file (sha bs @ ''.mp3'') part]
                   | _ \<Rightarrow> [])
    \<and> printed (snd (text_to_speech sha gtts text language slow w)) = printed w @ [Msg_tts_error]"
proof -
  note m = tts_miss [OF assms(1-5), of gtts language slow]
  have c: "cache_dir (snd (ensure_cache_dir w)) = Some (files w)"
    by (rule ensure_cache_dir_ok(2) [OF assms(5)])
  show ?thesis
  proof (cases "gtts text language slow")
    case (Inl e)
    with m c show ?thesis by (simp add: Let_def files_Some)
  next
    case (Inr tts)
    show ?thesis
    proof (cases tts)
      case (Save_ok audio)
      with Inr assms(6) show ?thesis by simp
    next
      case (Save_raises left)
      with Inr m c show ?thesis
        by (cases left) (simp_all add: Let_def files_Some)
    qed
  qed
qed

text \<open>
  Claim C5 at a failing input. When \<open>save\<close> raises after writing one byte,
  \<open>text_to_speech\<close> returns \<open>None\<close>, but the directory, empty before, holds a one-byte
  file under the key, and the next call, with a backend that would succeed, returns the
  path of that truncated file as a hit.
\<close>

theorem backend_failure_leaves_partial_file:
  "fst (text_to_speech hex_digest (backend_of (Inr (Save_raises (Some [73])))) [72, 105] ''en''
        False (world_of [])) = Inr None
   \<and> files (world_of []) = []
   \<and> files (snd (text_to_speech hex_digest (backend_of (Inr (Save_raises (Some [73])))) [72, 105]
        ''en'' False (world_of []))) = [new_file ''4869.mp3'' [73]]
   \<and> fst (text_to_speech hex_digest (backend_of (Inr (Save_ok [73, 68, 51]))) [72, 105] ''en''
        False
        (snd (text_to_speech hex_digest (backend_of (Inr (Save_raises (Some [73])))) [72, 105]
           ''en'' False (world_of [])))) = Inr (Some ''tts_cache/4869.mp3'')"
  by (simp add: eval_defs)

text \<open>
  The key is computed from the text alone: once a call has returned a path, the call for
  the same text in any language and at any rate is a hit on that path.
\<close>

lemma tts_hit_any_language_and_rate:
  assumes "text_to_speech sha gtts text l1 s1 w = (Inr (Some p), w1)"
  shows "fst (text_to_speech sha gtts text l2 s2 w1) = Inr (Some p)
    \<and> files (snd (text_to_speech sha gtts text l2 s2 w1)) = files w1
    \<and> backend_calls (snd (text_to_speech sha gtts text l2 s2 w1)) = backend_calls w1"
proof -
  from tts_Some_cases [OF assms] obtain bs where
    nb: "text \<noteq> []" "strip text \<noteq> []" and enc: "encode_utf8 text = Inr bs"
    and p: "p = cache_path sha bs" and l: "fst (os_path_exists (cache_path sha bs) w1)"
    by blast
  from tts_hit [OF nb enc l, of gtts l2 s2] p show ?thesis by simp
qed

text \<open>
  Claim C1 at a failing input. The key is computed from the text alone. After "Hi" has
  been synthesized in English at normal rate, the request for "Hi" in French at slow
  rate has the same path, does not reach the backend and reads the English audio.
\<close>

theorem cache_key_ignores_language_and_rate:
  "echo_backend [72, 105] ''en'' False = Inr (Save_ok [101, 110, 0, 72, 105])
   \<and> echo_backend [72, 105] ''fr'' True = Inr (Save_ok [102, 114, 1, 72, 105])
   \<and> fst (text_to_speech hex_digest echo_backend [72, 105] ''en'' False no_cache_dir) =
       Inr (Some ''tts_cache/4869.mp3'')
   \<and> fst (text_to_speech hex_digest echo_backend [72, 105] ''fr'' True
        (snd (text_to_speech hex_digest echo_backend [72, 105] ''en'' False no_cache_dir))) =
       Inr (Some ''tts_cache/4869.mp3'')
   \<and> fst (text_to_speech_bytes hex_digest echo_backend [72, 105] ''fr'' True
        (snd (text_to_speech hex_digest echo_backend [72, 105] ''en'' False no_cache_dir))) =
       Inr (Some [101, 110, 0, 72, 105])
   \<and> backend_calls (snd (text_to_speech hex_digest echo_backend [72, 105] ''fr'' True
        (snd (text_to_speech hex_digest echo_backend [72, 105] ''en'' False no_cache_dir)))) = 1"
  by (simp add: eval_defs echo_backend_def)

subsection \<open>Names in the directory\<close>

lemma mp3_names:
  "filter (\<lambda>n. endswith n ''.mp3'') (map fname fs) =
   map fname (filter (\<lambda>f. endswith (fname f) ''.mp3'') fs)"
  by (simp add: filter_map comp_def)

lemma find_distinct_name:
  "distinct (map fname fs) \<Longrightarrow> f \<in> set fs \<Longrightarrow> find (\<lambda>g. fname g = fname f) fs = Some f"
  by (induction fs) (auto simp: image_iff)

lemma find_name_cases:
  "find (\<lambda>g. fname g = n) fs = None \<longleftrightarrow> n \<notin> fname ` set fs"
  by (auto simp: find_None_iff image_iff)

subsection \<open>The removal loop\<close>

lemma os_remove_ok:
  assumes "find (\<lambda>g. fname g = n) (files w) = Some f" and "\<not> remove_fails f"
  shows "os_remove (os_path_join TTS_CACHE_DIR n) w =
     (Inr (), (emit (Call_remove (os_path_join TTS_CACHE_DIR n)) w)
        \<lparr>cache_dir := Some (filter (\<lambda>g. fname g \<noteq> n) (files w))\<rparr>)"
  using assms by (simp add: os_remove_def lookup_path_join Let_def)

lemma os_remove_files:
  "files (snd (os_remove (os_path_join TTS_CACHE_DIR n) w)) = files w
   \<or> files (snd (os_remove (os_path_join TTS_CACHE_DIR n) w)) = filter (\<lambda>g. fname g \<noteq> n) (files w)"
  by (simp add: os_remove_def lookup_path_join Let_def split: option.splits)

lemma os_remove_printed [simp]: "printed (snd (os_remove p w)) = printed w"
  by (simp add: os_remove_def Let_def split: option.splits)

lemma remove_files_printed [simp]: "printed (snd (remove_files ns w)) = printed w"
proof (induction ns arbitrary: w)
  case Nil
  then show ?case by simp
next
  case (Cons n ns)
  show ?case
  proof (cases "os_remove (os_path_join TTS_CACHE_DIR n) w")
    case (Pair r w1)
    then have "printed w1 = printed w"
      using os_remove_printed [of "os_path_join TTS_CACHE_DIR n" w] by simp
    with Pair Cons.IH [of w1] show ?thesis by (cases r) simp_all
  qed
qed

text \<open>Whatever the loop does, a file whose name is not in the list stays where it is.\<close>

lemma remove_files_frame:
  assumes "\<forall>n\<in>set ns. \<not> Q n"
  shows "filter (\<lambda>f. Q (fname f)) (files (snd (remove_files ns w))) =
         filter (\<lambda>f. Q (fname f)) (files w)"
  using assms
proof (induction ns arbitrary: w)
  case Nil
  then show ?case by simp
next
  case (Cons n ns)
  obtain r w1 where p: "os_remove (os_path_join TTS_CACHE_DIR n) w = (r, w1)"
    by (cases "os_remove (os_path_join TTS_CACHE_DIR n) w")
  have "\<not> Q n" using Cons.prems by simp
  then have q: "filter (\<lambda>f. Q (fname f)) (filter (\<lambda>g. fname g \<noteq> n) (files w)) =
                filter (\<lambda>f. Q (fname f)) (files w)"
    by (auto intro: filter_cong)
  have s: "filter (\<lambda>f. Q (fname f)) (files w1) = filter (\<lambda>f. Q (fname f)) (files w)"
    using os_remove_files [of n w] p q by auto
  show ?case
  proof (cases r)
    case (Inl e)
    with p s show ?thesis by simp
  next
    case (Inr u)
    with p s Cons.IH [of w1] Cons.prems show ?thesis by simp
  qed
qed

text \<open>The loop only deletes: what is left is a subsequence of what was there.\<close>

lemma remove_files_subseq: "subseq (files (snd (remove_files ns w))) (files w)"
proof (induction ns arbitrary: w)
  case Nil
  then show ?case by simp
next
  case (Cons n ns)
  obtain r w1 where p: "os_remove (os_path_join TTS_CACHE_DIR n) w = (r, w1)"
    by (cases "os_remove (os_path_join TTS_CACHE_DIR n) w")
  have s: "subseq (files w1) (files w)"
    using os_remove_files [of n w] p by auto
  show ?case
  proof (cases r)
    case (Inl e)
    with p s show ?thesis by simp
  next
    case (Inr u)
    with p Cons.IH [of w1] s show ?thesis by (auto intro: subseq_order.trans)
  qed
qed

text \<open>When every file named in the list is there and can be removed, the loop removes them
  all.\<close>

lemma remove_files_all:
  assumes "distinct ns" and "set ns \<subseteq> fname ` set (files w)"
    and "\<forall>f\<in>set (files w). fname f \<in> set ns \<longrightarrow> \<not> remove_fails f"
  shows "fst (remove_files ns w) = Inr ()
     \<and> files (snd (remove_files ns w)) = filter (\<lambda>f. fname f \<notin> set ns) (files w)"
  using assms
proof (induction ns arbitrary: w)
  case Nil
  then show ?case by simp
next
  case (Cons n ns)
  from Cons.prems(2) obtain f where f: "find (\<lambda>g. fname g = n) (files w) = Some f"
    by (cases "find (\<lambda>g. fname g = n) (files w)") (auto simp: find_name_cases)
  then have "f \<in> set (files w)" "fname f = n"
    by (auto simp: find_Some_iff)
  then have nf: "\<not> remove_fails f" using Cons.prems(3) by simp
  let ?w1 = "(emit (Call_remove (os_path_join TTS_CACHE_DIR n)) w)
        \<lparr>cache_dir := Some (filter (\<lambda>g. fname g \<noteq> n) (files w))\<rparr>"
  have r: "os_remove (os_path_join TTS_CACHE_DIR n) w = (Inr (), ?w1)"
    by (rule os_remove_ok [OF f nf])
  have a: "distinct ns" using Cons.prems(1) by simp
  have b: "set ns \<subseteq> fname ` set (files ?w1)"
  proof
    fix m assume m: "m \<in> set ns"
    then have "m \<noteq> n" using Cons.prems(1) by auto
    moreover from m Cons.prems(2) obtain g where "g \<in> set (files w)" "fname g = m" by auto
    ultimately show "m \<in> fname ` set (files ?w1)" by (auto simp: image_iff)
  qed
  have c: "\<forall>f\<in>set (files ?w1). fname f \<in> set ns \<longrightarrow> \<not> remove_fails f"
    using Cons.prems(3) by simp
  from Cons.IH [OF a b c] r show ?case
    by (auto intro: filter_cong)
qed

text \<open>When one of the files named in the list cannot be removed, the loop ends in an
  error.\<close>

lemma remove_files_fails:
  assumes "distinct ns" and "distinct (map fname (files w))"
    and "\<exists>f\<in>set (files w). fname f \<in> set ns \<and> remove_fails f"
  shows "\<exists>e. fst (remove_files ns w) = Inl e"
  using assms
proof (induction ns arbitrary: w)
  case Nil
  then show ?case by simp
next
  case (Cons n ns)
  show ?case
  proof (cases "find (\<lambda>g. fname g = n) (files w)")
    case None
    then show ?thesis by (simp add: os_remove_def lookup_path_join Let_def)
  next
    case (Some f)
    show ?thesis
    proof (cases "remove_fails f")
      case True
      with Some show ?thesis by (simp add: os_remove_def lookup_path_join Let_def)
    next
      case False
      let ?w1 = "(emit (Call_remove (os_path_join TTS_CACHE_DIR n)) w)
        \<lparr>cache_dir := Some (filter (\<lambda>g. fname g \<noteq> n) (files w))\<rparr>"
      have r: "os_remove (os_path_join TTS_CACHE_DIR n) w = (Inr (), ?w1)"
        by (rule os_remove_ok [OF Some False])
      from Cons.prems(3) obtain g where g: "g \<in> set (files w)" "fname g \<in> set (n # ns)"
        "remove_fails g" by blast
      have "fname g \<noteq> n"
      proof
        assume "fname g = n"
        then have "find (\<lambda>h. fname h = n) (files w) = Some g"
          using find_distinct_name [OF Cons.prems(2) g(1)] by simp
        with Some False g(3) show False by simp
      qed
      with g have c: "\<exists>f\<in>set (files ?w1). fname f \<in> set ns \<and> remove_fails f"
        by auto
      have a: "distinct ns" using Cons.prems(1) by simp
      have b: "distinct (map fname (files ?w1))"
        using Cons.prems(2) by (simp add: distinct_map_filter)
      from Cons.IH [OF a b c] r show ?thesis by simp
    qed
  qed
qed

subsection \<open>Clearing\<close>

lemma other_files_eq:
  "filter (\<lambda>f. fname f \<notin> set (map fname (mp3_files w))) (files w) = other_files w"
  unfolding other_files_def mp3_files_def
  by (rule filter_cong) (auto simp: image_iff)

lemma mp3_files_emit [simp]: "mp3_files (emit e w) = mp3_files w"
  by (simp add: mp3_files_def)

lemma other_files_emit [simp]: "other_files (emit e w) = other_files w"
  by (simp add: other_files_def)

lemma clear_cache_unfold:
  assumes "cache_dir w \<noteq> None" and "\<not> listdir_fails w"
  shows "clear_cache mx w =
     (let w2 = emit (Call_listdir TTS_CACHE_DIR) (emit (Call_exists TTS_CACHE_DIR) w);
          fls = map fname (mp3_files w)
      in if mx \<noteq> None \<and> int (length fls) \<le> the mx then (PyNone, w2)
         else case remove_files fls w2 of
                (Inl e, w3) \<Rightarrow> (PyNone, emit (Print Msg_clear_error) w3)
              | (Inr u, w3) \<Rightarrow> (PyNone, emit (Print (Msg_cleared (length fls))) w3))"
proof -
  from assms(1) obtain fs where c: "cache_dir w = Some fs" by auto
  then have f: "files w = fs" by (rule files_Some)
  show ?thesis
    using c assms(2)
    by (simp add: clear_cache_def os_path_exists_def os_listdir_def Let_def mp3_names
        mp3_files_def f)
qed

text \<open>
  Claim C6, as amended. \<open>clear_cache\<close> hands back \<open>None\<close> on every path; the number of
  files removed is only printed. With the directory present and listable:
  \<open>clear_cache(max_files)\<close> changes nothing when there are at most \<open>max_files\<close> files
  ending in \<open>.mp3\<close>; and when there are more, or no threshold is given, and each of them
  can be removed, it removes them all, leaves none, and prints their former number.
\<close>

theorem clear_cache_threshold_and_clear_all:
  assumes "cache_dir w \<noteq> None" and "\<not> listdir_fails w"
  shows "(int (length (mp3_files w)) \<le> m \<longrightarrow>
            clear_cache (Some m) w =
              (PyNone, w\<lparr>trace := trace w @ [Call_exists TTS_CACHE_DIR,
                                              Call_listdir TTS_CACHE_DIR]\<rparr>))
     \<and> ((mx = None \<or> the mx < int (length (mp3_files w))) \<and> wf_world w
          \<and> \<not> list_ex remove_fails (mp3_files w) \<longrightarrow>
            fst (clear_cache mx w) = PyNone
            \<and> files (snd (clear_cache mx w)) = other_files w
            \<and> mp3_files (snd (clear_cache mx w)) = []
            \<and> printed (snd (clear_cache mx w)) = printed w @ [Msg_cleared (length (mp3_files w))])"
proof (intro conjI impI)
  assume "int (length (mp3_files w)) \<le> m"
  then show "clear_cache (Some m) w =
      (PyNone, w\<lparr>trace := trace w @ [Call_exists TTS_CACHE_DIR, Call_listdir TTS_CACHE_DIR]\<rparr>)"
    by (simp add: clear_cache_unfold [OF assms] emit_def)
next
  assume a: "(mx = None \<or> the mx < int (length (mp3_files w))) \<and> wf_world w
          \<and> \<not> list_ex remove_fails (mp3_files w)"
  let ?w2 = "emit (Call_listdir TTS_CACHE_DIR) (emit (Call_exists TTS_CACHE_DIR) w)"
  let ?ns = "map fname (mp3_files w)"
  have d: "distinct ?ns"
    using a by (simp add: wf_world_def mp3_files_def distinct_map_filter)
  have s: "set ?ns \<subseteq> fname ` set (files ?w2)"
    by (auto simp: mp3_files_def)
  have r: "\<forall>f\<in>set (files ?w2). fname f \<in> set ?ns \<longrightarrow> \<not> remove_fails f"
    using a by (auto simp: mp3_files_def list_ex_iff)
  from remove_files_all [OF d s r]
  have ok: "fst (remove_files ?ns ?w2) = Inr ()"
    and fl: "files (snd (remove_files ?ns ?w2)) = other_files w"
    using other_files_eq [of w] by simp_all
  have go: "(mx \<noteq> None \<and> int (length (mp3_files w)) \<le> the mx) = False" using a by auto
  obtain u w3 where p: "remove_files ?ns ?w2 = (Inr u, w3)"
    using ok by (cases "remove_files ?ns ?w2") auto
  have pr: "printed w3 = printed w"
    using remove_files_printed [of ?ns ?w2] p by simp
  have cc: "clear_cache mx w = (PyNone, emit (Print (Msg_cleared (length (mp3_files w)))) w3)"
    unfolding clear_cache_unfold [OF assms, of mx] Let_def length_map go using p by simp
  show "fst (clear_cache mx w) = PyNone" using cc by simp
  show f: "files (snd (clear_cache mx w)) = other_files w" using cc fl p by simp
  show "mp3_files (snd (clear_cache mx w)) = []"
    unfolding mp3_files_def f by (simp add: other_files_def)
  show "printed (snd (clear_cache mx w)) = printed w @ [Msg_cleared (length (mp3_files w))]"
    using cc pr by simp
qed

theorem clear_cache_threshold_and_clear_all_witness:
  "wf_world (world_of [new_file ''a.mp3'' [1], new_file ''b.txt'' [2], new_file ''c.mp3'' []])
   \<and> length (mp3_files
        (world_of [new_file ''a.mp3'' [1], new_file ''b.txt'' [2], new_file ''c.mp3'' []])) = 2
   \<and> clear_cache (Some 2)
        (world_of [new_file ''a.mp3'' [1], new_file ''b.txt'' [2], new_file ''c.mp3'' []]) =
     (PyNone, (world_of [new_file ''a.mp3'' [1], new_file ''b.txt'' [2], new_file ''c.mp3'' []])
        \<lparr>trace := [Call_exists ''tts_cache'', Call_listdir ''tts_cache'']\<rparr>)
   \<and> files (snd (clear_cache (Some 1)
        (world_of [new_file ''a.mp3'' [1], new_file ''b.txt'' [2], new_file ''c.mp3'' []]))) =
       [new_file ''b.txt'' [2]]
   \<and> printed (snd (clear_cache (Some 1)
        (world_of [new_file ''a.mp3'' [1], new_file ''b.txt'' [2], new_file ''c.mp3'' []]))) =
       [Msg_cleared 2]
   \<and> files (snd (clear_cache None
        (world_of [new_file ''a.mp3'' [1], new_file ''b.txt'' [2], new_file ''c.mp3'' []]))) =
       [new_file ''b.txt'' [2]]
   \<and> printed (snd (clear_cache None
        (world_of [new_file ''a.mp3'' [1], new_file ''b.txt'' [2], new_file ''c.mp3'' []]))) =
       [Msg_cleared 2]"
  using clear_cache_threshold_and_clear_all
     [of "world_of [new_file ''a.mp3'' [1], new_file ''b.txt'' [2], new_file ''c.mp3'' []]" 2
         "Some 1"]
    clear_cache_threshold_and_clear_all
     [of "world_of [new_file ''a.mp3'' [1], new_file ''b.txt'' [2], new_file ''c.mp3'' []]" 2
         None]
  by (simp add: eval_defs)

text \<open>
  Claim C6 as stated fails: the value handed back is neither \<open>0\<close> on the no-op nor the
  number of files on a clear, and a file that cannot be removed stays after
  \<open>clear_cache()\<close>.
\<close>

theorem clear_cache_returns_no_count:
  "fst (clear_cache (Some 5) (world_of [new_file ''a.mp3'' [1]])) \<noteq> PyInt 0
   \<and> fst (clear_cache None (world_of [new_file ''a.mp3'' [1]])) \<noteq> PyInt 1
   \<and> mp3_files (snd (clear_cache None
        (world_of [(new_file ''a.mp3'' [1])\<lparr>remove_fails := True\<rparr>]))) \<noteq> []"
  by (simp add: eval_defs)

subsection \<open>The size loop\<close>

lemma os_path_getsize_world [simp]:
  "snd (os_path_getsize p w) = emit (Call_getsize p) w"
  by (simp add: os_path_getsize_def Let_def split: option.splits)

lemma sum_sizes_cache_dir [simp]: "cache_dir (snd (sum_sizes acc ns w)) = cache_dir w"
proof (induction ns arbitrary: acc w)
  case Nil
  then show ?case by simp
next
  case (Cons n ns)
  obtain r w1 where p: "os_path_getsize (os_path_join TTS_CACHE_DIR n) w = (r, w1)"
    by (cases "os_path_getsize (os_path_join TTS_CACHE_DIR n) w")
  then have "cache_dir w1 = cache_dir w"
    using os_path_getsize_world [of "os_path_join TTS_CACHE_DIR n" w] by simp
  with p Cons.IH [of _ w1] show ?case by (cases r) simp_all
qed

lemma sum_sizes_printed [simp]: "printed (snd (sum_sizes acc ns w)) = printed w"
proof (induction ns arbitrary: acc w)
  case Nil
  then show ?case by simp
next
  case (Cons n ns)
  obtain r w1 where p: "os_path_getsize (os_path_join TTS_CACHE_DIR n) w = (r, w1)"
    by (cases "os_path_getsize (os_path_join TTS_CACHE_DIR n) w")
  then have "printed w1 = printed w"
    using os_path_getsize_world [of "os_path_join TTS_CACHE_DIR n" w] by simp
  with p Cons.IH [of _ w1] show ?case by (cases r) simp_all
qed

text \<open>The outcome of the loop depends on the world only through the files it looks up.\<close>

lemma sum_sizes_cong:
  assumes "\<forall>n\<in>set ns. find (\<lambda>g. fname g = n) (files w) = find (\<lambda>g. fname g = n) (files w')"
  shows "fst (sum_sizes acc ns w) = fst (sum_sizes acc ns w')"
  using assms
proof (induction ns arbitrary: acc w w')
  case Nil
  then show ?case by simp
next
  case (Cons n ns)
  let ?p = "os_path_join TTS_CACHE_DIR n"
  define r where "r = fst (os_path_getsize ?p w)"
  have "fst (os_path_getsize ?p w') = r"
    using Cons.prems
    by (simp add: r_def os_path_getsize_def lookup_path_join Let_def split: option.splits)
  then have e: "os_path_getsize ?p w = (r, emit (Call_getsize ?p) w)"
    "os_path_getsize ?p w' = (r, emit (Call_getsize ?p) w')"
    by (simp_all add: r_def prod_eq_iff)
  have q: "\<forall>m\<in>set ns. find (\<lambda>g. fname g = m) (files (emit (Call_getsize ?p) w)) =
                        find (\<lambda>g. fname g = m) (files (emit (Call_getsize ?p) w'))"
    using Cons.prems by simp
  show ?case
  proof (cases r)
    case (Inl x)
    with e show ?thesis by simp
  next
    case (Inr k)
    with e Cons.IH [OF q] show ?thesis by simp
  qed
qed

lemma sum_sizes_ok:
  assumes "\<forall>n\<in>set ns. \<exists>f. find (\<lambda>g. fname g = n) (files w) = Some f \<and> \<not> getsize_fails f"
  shows "fst (sum_sizes acc ns w) =
     Inr (acc + sum_list (map (\<lambda>n. length (fdata (the (find (\<lambda>g. fname g = n) (files w))))) ns))"
  using assms
proof (induction ns arbitrary: acc w)
  case Nil
  then show ?case by simp
next
  case (Cons n ns)
  let ?p = "os_path_join TTS_CACHE_DIR n"
  from Cons.prems obtain f where f: "find (\<lambda>g. fname g = n) (files w) = Some f"
    "\<not> getsize_fails f" by auto
  then have g: "os_path_getsize ?p w = (Inr (length (fdata f)), emit (Call_getsize ?p) w)"
    by (simp add: os_path_getsize_def lookup_path_join Let_def)
  have r: "\<forall>m\<in>set ns. \<exists>f. find (\<lambda>g. fname g = m) (files (emit (Call_getsize ?p) w)) = Some f
      \<and> \<not> getsize_fails f"
    using Cons.prems by simp
  from Cons.IH [OF r] g f show ?case by simp
qed

lemma sum_sizes_fails:
  assumes "\<exists>n\<in>set ns. \<forall>f. find (\<lambda>g. fname g = n) (files w) = Some f \<longrightarrow> getsize_fails f"
  shows "\<exists>e. fst (sum_sizes acc ns w) = Inl e"
  using assms
proof (induction ns arbitrary: acc w)
  case Nil
  then show ?case by simp
next
  case (Cons n ns)
  let ?p = "os_path_join TTS_CACHE_DIR n"
  show ?case
  proof (cases "fst (os_path_getsize ?p w)")
    case (Inl e)
    then show ?thesis by (simp add: split_beta)
  next
    case (Inr k)
    then have "\<exists>f. find (\<lambda>g. fname g = n) (files w) = Some f \<and> \<not> getsize_fails f"
      by (simp add: os_path_getsize_def lookup_path_join Let_def split: option.splits if_splits)
    with Cons.prems have "\<exists>m\<in>set ns. \<forall>f. find (\<lambda>g. fname g = m) (files (emit (Call_getsize ?p) w)) = Some f
         \<longrightarrow> getsize_fails f"
      by auto
    from Cons.IH [OF this] Inr show ?thesis by (simp add: split_beta)
  qed
qed

subsection \<open>Rounding\<close>

lemma bit_length_bounds:
  "0 < n \<Longrightarrow> 2 ^ (bit_length n - 1) \<le> n \<and> n < 2 ^ bit_length n"
proof (induction n rule: bit_length.induct)
  case (1 n)
  show ?case
  proof (cases "n div 2 = 0")
    case True
    with "1.prems" have "n = 1" by (auto simp: div_eq_0_iff)
    then show ?thesis by (simp add: bit_length.simps)
  next
    case False
    then have h: "2 ^ (bit_length (n div 2) - 1) \<le> n div 2" "n div 2 < 2 ^ bit_length (n div 2)"
      using "1.IH" "1.prems" by auto
    have p: "0 < bit_length (n div 2)"
      using False by (simp add: bit_length.simps [of "n div 2"])
    have b: "bit_length n = Suc (bit_length (n div 2))"
      using "1.prems" by (simp add: bit_length.simps [of n])
    have "2 ^ (bit_length n - 1) = 2 * 2 ^ (bit_length (n div 2) - 1)"
      using p b by (cases "bit_length (n div 2)") simp_all
    also have "\<dots> \<le> 2 * (n div 2)" using h(1) by simp
    also have "\<dots> \<le> n" by simp
    finally have lo: "2 ^ (bit_length n - 1) \<le> n" .
    have "n < 2 * (n div 2) + 2" by presburger
    also have "\<dots> \<le> 2 * 2 ^ bit_length (n div 2)" using h(2) by simp
    finally have "n < 2 ^ bit_length n" using b by simp
    with lo show ?thesis by simp
  qed
qed

lemma bit_length_pos: "0 < n \<Longrightarrow> 0 < bit_length n"
  by (simp add: bit_length.simps [of n])

lemma ilog2_bounds:
  assumes "0 < q"
  shows "2 powi ilog2 q \<le> q" and "q < 2 powi (ilog2 q + 1)"
proof -
  have "2 powi ilog2 q \<le> q \<and> q < 2 powi (ilog2 q + 1)"
  proof (cases "1 \<le> q")
    case True
    define n where "n = nat \<lfloor>q\<rfloor>"
    have n: "0 < n" "of_nat n \<le> q" "q < of_nat n + 1"
      using True by (simp_all add: n_def) linarith+
    define L where "L = bit_length n"
    have L: "0 < L" "2 ^ (L - 1) \<le> n" "n < 2 ^ L"
      using bit_length_bounds [OF n(1)] bit_length_pos [OF n(1)] by (simp_all add: L_def)
    have i: "ilog2 q = int L - 1" using True by (simp add: ilog2_def n_def L_def)
    have e1: "(2::rat) powi (int L - 1) = 2 ^ (L - 1)"
      using L(1) by (simp add: power_int_def nat_diff_distrib')
    have e2: "(2::rat) powi (int L - 1 + 1) = 2 ^ L" by simp
    have "(2::rat) ^ (L - 1) \<le> of_nat n"
      using L(2) by (metis of_nat_le_iff of_nat_numeral of_nat_power)
    then have lo: "(2::rat) ^ (L - 1) \<le> q" using n(2) by linarith
    have "n + 1 \<le> 2 ^ L" using L(3) by simp
    then have "(of_nat (n + 1) :: rat) \<le> 2 ^ L"
      by (metis of_nat_le_iff of_nat_numeral of_nat_power)
    then have hi: "q < 2 ^ L" using n(3) by simp
    show ?thesis unfolding i e1 e2 using lo hi by simp
  next
    case False
    then have q1: "q < 1" by simp
    define c where "c = \<lceil>1 / q\<rceil>"
    have y: "1 < 1 / q" using assms q1 by simp
    have c: "of_int c - 1 < 1 / q" "1 / q \<le> of_int c"
      unfolding c_def by linarith+
    have c2: "2 \<le> c" using y c(2) by linarith
    define n where "n = nat (c - 1)"
    have n: "0 < n" "int n = c - 1" using c2 by (simp_all add: n_def)
    define L where "L = bit_length n"
    have L: "0 < L" "2 ^ (L - 1) \<le> n" "n < 2 ^ L"
      using bit_length_bounds [OF n(1)] bit_length_pos [OF n(1)] by (simp_all add: L_def)
    have i: "ilog2 q = - int L" using False by (simp add: ilog2_def n_def L_def c_def)
    have e1: "(2::rat) powi (- int L) = 1 / 2 ^ L"
      by (simp add: power_int_minus field_simps)
    have e2: "(2::rat) powi (- int L + 1) = 1 / 2 ^ (L - 1)"
    proof -
      have h: "- int L + 1 = - int (L - 1)" using L(1) by simp
      show ?thesis unfolding h by (simp only: power_int_minus power_int_of_nat inverse_eq_divide)
    qed
    have "int n < 2 ^ L" using L(3) by (metis of_nat_less_iff of_nat_numeral of_nat_power)
    then have "c \<le> 2 ^ L" using n(2) by simp
    then have "(of_int c :: rat) \<le> 2 ^ L" by (metis of_int_le_iff of_int_numeral of_int_power)
    then have "1 / q \<le> 2 ^ L" using c(2) by linarith
    then have lo: "1 / 2 ^ L \<le> q"
      using assms by (simp add: field_simps)
    have "(2::int) ^ (L - 1) \<le> c - 1"
      using L(2) n(2) by (metis of_nat_le_iff of_nat_numeral of_nat_power)
    then have "(2::rat) ^ (L - 1) \<le> of_int (c - 1)"
      by (metis of_int_le_iff of_int_numeral of_int_power)
    then have "2 ^ (L - 1) < 1 / q" using c(1) by simp
    then have hi: "q < 1 / 2 ^ (L - 1)"
      using assms by (simp add: field_simps)
    show ?thesis unfolding i e1 e2 using lo hi by simp
  qed
  then show "2 powi ilog2 q \<le> q" and "q < 2 powi (ilog2 q + 1)" by simp_all
qed

lemma pow2_less_imp: "(2::rat) powi a < 2 powi b \<Longrightarrow> a < b"
proof (rule ccontr)
  assume "(2::rat) powi a < 2 powi b" and "\<not> a < b"
  then show False using power_int_increasing [of b a "2::rat"] by simp
qed

lemma ilog2_eqI:
  assumes "2 powi e \<le> q" and "q < 2 powi (e + 1)"
  shows "ilog2 q = e"
proof -
  have q: "0 < q" using assms(1) by (meson less_le_trans zero_less_numeral zero_less_power_int)
  note b = ilog2_bounds [OF q]
  have "(2::rat) powi e < 2 powi (ilog2 q + 1)" using assms(1) b(2) by simp
  then have 1: "e < ilog2 q + 1" by (rule pow2_less_imp)
  have "(2::rat) powi ilog2 q < 2 powi (e + 1)" using assms(2) b(1) by simp
  then have 2: "ilog2 q < e + 1" by (rule pow2_less_imp)
  from 1 2 show ?thesis by simp
qed

lemma round_half_even_close: "\<bar>of_int (round_half_even y) - y\<bar> \<le> 1 / 2"
proof -
  define f where "f = \<lfloor>y\<rfloor>"
  define d where "d = y - of_int f"
  have d: "0 \<le> d" "d < 1" unfolding d_def f_def by linarith+
  show ?thesis
    using d unfolding round_half_even_def Let_def f_def [symmetric] d_def [symmetric]
    by (auto simp: d_def split: if_splits)
qed

lemma round_half_even_eqI: "\<bar>y - of_int k\<bar> < 1 / 2 \<Longrightarrow> round_half_even y = k"
proof -
  assume a: "\<bar>y - of_int k\<bar> < 1 / 2"
  have "\<bar>of_int (round_half_even y) - y\<bar> \<le> 1 / 2" by (rule round_half_even_close)
  with a have "\<bar>(of_int (round_half_even y) :: rat) - of_int k\<bar> < 1" by linarith
  then have "\<bar>(of_int (round_half_even y - k) :: rat)\<bar> < 1" by simp
  then have "\<bar>round_half_even y - k\<bar> < 1"
    by (metis of_int_abs of_int_less_1_iff)
  then show ?thesis by simp
qed

lemma round_half_even_of_int [simp]: "round_half_even (of_int k) = k"
  by (rule round_half_even_eqI) simp

lemma round_half_even_tie:
  "y = of_int f + 1 / 2 \<Longrightarrow> round_half_even y = (if even f then f else f + 1)"
proof -
  assume y: "y = of_int f + 1 / 2"
  have "\<lfloor>y\<rfloor> = f" unfolding y by (rule floor_unique) simp_all
  then show ?thesis by (simp add: round_half_even_def Let_def y)
qed

lemma nearest_double_close:
  assumes "0 < q"
  shows "\<bar>nearest_double q - q\<bar> \<le> 2 powi (ilog2 q - 53)"
proof -
  define u :: rat where "u = 2 powi (ilog2 q - 52)"
  have u: "0 < u" by (simp add: u_def zero_less_power_int)
  have h: "2 powi (ilog2 q - 53) = u / 2"
    using power_int_add [of "2::rat" "ilog2 q - 53" 1] by (simp add: u_def)
  have n: "nearest_double q = of_int (round_half_even (q / u)) * u"
    using assms by (simp add: nearest_double_def u_def Let_def)
  have "\<bar>of_int (round_half_even (q / u)) - q / u\<bar> \<le> 1 / 2" by (rule round_half_even_close)
  then have "\<bar>of_int (round_half_even (q / u)) - q / u\<bar> * u \<le> 1 / 2 * u"
    using u by (intro mult_right_mono) simp_all
  moreover have "\<bar>of_int (round_half_even (q / u)) - q / u\<bar> * u =
      \<bar>(of_int (round_half_even (q / u)) - q / u) * u\<bar>"
    using u by (simp add: abs_mult)
  moreover have "(of_int (round_half_even (q / u)) - q / u) * u =
      of_int (round_half_even (q / u)) * u - q"
    using u by (simp add: left_diff_distrib)
  ultimately show ?thesis unfolding n h by simp
qed

lemma ilog2_less: "0 < q \<Longrightarrow> q < 2 powi e \<Longrightarrow> ilog2 q < e"
  using ilog2_bounds(1) [of q] pow2_less_imp [of "ilog2 q" e] by simp

lemma nearest_double_close_small:
  assumes "0 \<le> q" and "q < 2 ^ 34"
  shows "\<bar>nearest_double q - q\<bar> \<le> 1 / 2 ^ 20"
proof (cases "q = 0")
  case True
  then show ?thesis by (simp add: nearest_double_def)
next
  case False
  then have q: "0 < q" using assms(1) by simp
  have "q < 2 powi 34" using assms(2) by simp
  then have "ilog2 q - 53 \<le> - 20" using ilog2_less [OF q] by fastforce
  then have "(2::rat) powi (ilog2 q - 53) \<le> 2 powi (- 20)"
    by (intro power_int_increasing) simp_all
  then show ?thesis using nearest_double_close [OF q] by (simp add: power_int_minus field_simps)
qed

text \<open>A multiple of \<open>2 ^ - 20\<close> below \<open>2 ^ 33\<close> is a double.\<close>

lemma nearest_double_exact:
  assumes "n < 2 ^ 53"
  shows "nearest_double (of_nat n / (1024 * 1024)) = of_nat n / (1024 * 1024)"
proof (cases "n = 0")
  case True
  then show ?thesis by (simp add: nearest_double_def)
next
  case False
  define q :: rat where "q = of_nat n / (1024 * 1024)"
  have q: "0 < q" using False by (simp add: q_def)
  have "(of_nat n :: rat) < 2 ^ 53"
    using assms by (metis of_nat_less_iff of_nat_numeral of_nat_power)
  then have "q < 2 powi 33" by (simp add: q_def)
  then have e: "ilog2 q < 33" by (rule ilog2_less [OF q])
  define k where "k = nat (32 - ilog2 q)"
  have k: "int k = 32 - ilog2 q" using e by (simp add: k_def)
  define u :: rat where "u = 2 powi (ilog2 q - 52)"
  have "ilog2 q - 52 = - 20 - int k" using k by simp
  then have "u = 2 powi (- 20 - int k)" by (simp add: u_def)
  also have "\<dots> = 1 / (2 ^ 20 * 2 ^ k)"
    by (simp add: power_int_diff power_int_minus field_simps)
  finally have u: "u = 1 / (2 ^ 20 * 2 ^ k)" .
  have "q / u = of_int (int n * 2 ^ k)" by (simp add: q_def u)
  then have "round_half_even (q / u) = int n * 2 ^ k"
    by (simp only: round_half_even_of_int)
  then have "of_int (round_half_even (q / u)) * u = of_int (int n * 2 ^ k) * u" by simp
  also have "\<dots> = q" by (simp add: q_def u)
  finally have r: "of_int (round_half_even (q / u)) * u = q" .
  have "nearest_double q = of_int (round_half_even (q / u)) * u"
    using q unfolding nearest_double_def Let_def u_def by simp
  with r show ?thesis unfolding q_def by simp
qed

lemma round_decimal_close: "\<bar>round_decimal x n - x\<bar> \<le> 1 / (2 * 10 ^ n)"
proof -
  define s :: rat where "s = 10 ^ n"
  have s: "0 < s" by (simp add: s_def)
  have "\<bar>of_int (round_half_even (x * s)) - x * s\<bar> \<le> 1 / 2" by (rule round_half_even_close)
  then have "\<bar>of_int (round_half_even (x * s)) - x * s\<bar> / s \<le> (1 / 2) / s"
    using s by (intro divide_right_mono) simp_all
  moreover have "\<bar>of_int (round_half_even (x * s)) - x * s\<bar> / s =
      \<bar>of_int (round_half_even (x * s)) / s - x\<bar>"
    using s by (simp add: abs_div_pos diff_divide_distrib)
  ultimately show ?thesis by (simp add: round_decimal_def s_def)
qed

lemma round_decimal_decimal: "\<exists>k::int. round_decimal x n = of_int k / 10 ^ n"
  by (auto simp: round_decimal_def)

lemma round_decimal_nonneg: "0 \<le> x \<Longrightarrow> 0 \<le> round_decimal x n"
proof -
  assume x: "0 \<le> x"
  have "\<bar>of_int (round_half_even (x * 10 ^ n)) - x * 10 ^ n\<bar> \<le> 1 / 2"
    by (rule round_half_even_close)
  moreover have "0 \<le> x * 10 ^ n" using x by simp
  ultimately have "- 1 < (of_int (round_half_even (x * 10 ^ n)) :: rat)" by linarith
  then have "0 \<le> round_half_even (x * 10 ^ n)" by linarith
  then show ?thesis by (simp add: round_decimal_def)
qed

lemma round_decimal_tie: "round_decimal (3 / 8) 2 = 38 / 100"
proof -
  have "(3::rat) / 8 * 10 ^ 2 = of_int 37 + 1 / 2" by simp
  from round_half_even_tie [OF this] show ?thesis by (simp add: round_decimal_def)
qed

lemma nearest_double_tie_example:
  "nearest_double (9007199254756721 / (1024 * 1024)) = 9007199254756720 / (1024 * 1024)"
proof -
  define q :: rat where "q = 9007199254756721 / (1024 * 1024)"
  have i: "ilog2 q = 33" by (rule ilog2_eqI) (simp_all add: q_def)
  have "q / 2 powi (- 19) = of_int 4503599627378360 + 1 / 2" by (simp add: q_def)
  from round_half_even_tie [OF this]
  have "round_half_even (q / 2 powi (- 19)) = 4503599627378360" by simp
  moreover have "q \<noteq> 0" by (simp add: q_def)
  ultimately have "nearest_double q = 4503599627378360 * 2 powi (- 19)"
    by (simp add: nearest_double_def i)
  then show ?thesis by (simp add: q_def)
qed

lemma round_decimal_below_example:
  "round_decimal (9007199254756720 / (1024 * 1024)) 2 = 858993459201 / 100"
proof -
  have "round_half_even (9007199254756720 / (1024 * 1024) * 10 ^ 2) = 858993459201"
    by (rule round_half_even_eqI) simp
  then show ?thesis by (simp add: round_decimal_def)
qed

lemma round_decimal_above_example:
  "round_decimal (9007199254756721 / (1024 * 1024)) 2 = 858993459202 / 100"
proof -
  have "round_half_even (9007199254756721 / (1024 * 1024) * 10 ^ 2) = 858993459202"
    by (rule round_half_even_eqI) simp
  then show ?thesis by (simp add: round_decimal_def)
qed

lemma nearest_double_distinct_example:
  "nearest_double (858993459201 / 100) \<noteq> nearest_double (858993459202 / 100)"
proof
  assume e: "nearest_double (858993459201 / 100) = nearest_double (858993459202 / 100)"
  define x where "x = nearest_double (858993459202 / 100)"
  define a b c :: rat where "a = 858993459201 / 100" and "b = 858993459202 / 100"
    and "c = 1 / 2 ^ 20"
  have "\<bar>nearest_double a - a\<bar> \<le> c"
    unfolding a_def c_def by (rule nearest_double_close_small) simp_all
  then have 1: "\<bar>x - a\<bar> \<le> c" using e by (simp add: x_def a_def)
  have 2: "\<bar>x - b\<bar> \<le> c"
    unfolding x_def b_def c_def by (rule nearest_double_close_small) simp_all
  from 1 2 have "b - a \<le> 2 * c" by linarith
  then show False by (simp add: a_def b_def c_def)
qed

lemma py_round_zero [simp]: "py_round (py_truediv 0 b) n = 0"
  using round_half_even_of_int [of 0]
  by (simp add: py_round_def py_truediv_def nearest_double_def round_decimal_def)

subsection \<open>Statistics\<close>

lemma get_cache_stats_missing:
  "cache_dir w = None \<Longrightarrow>
   get_cache_stats w = (\<lparr>file_count = 0, total_size_mb = 0\<rparr>, emit (Call_exists TTS_CACHE_DIR) w)"
  by (simp add: get_cache_stats_def os_path_exists_def lookup_path_def files_def)

lemma get_cache_stats_unlistable:
  "cache_dir w \<noteq> None \<Longrightarrow> listdir_fails w \<Longrightarrow>
   get_cache_stats w = (\<lparr>file_count = 0, total_size_mb = 0\<rparr>,
      emit (Print Msg_stats_error) (emit (Call_listdir TTS_CACHE_DIR)
        (emit (Call_exists TTS_CACHE_DIR) w)))"
  by (auto simp: get_cache_stats_def os_path_exists_def os_listdir_def Let_def)

lemma get_cache_stats_unfold:
  assumes "cache_dir w \<noteq> None" and "\<not> listdir_fails w"
  shows "get_cache_stats w =
     (let w2 = emit (Call_listdir TTS_CACHE_DIR) (emit (Call_exists TTS_CACHE_DIR) w);
          fls = map fname (mp3_files w)
      in case sum_sizes 0 fls w2 of
           (Inl e, w3) \<Rightarrow>
             (\<lparr>file_count = 0, total_size_mb = 0\<rparr>, emit (Print Msg_stats_error) w3)
         | (Inr total_size, w3) \<Rightarrow>
             (\<lparr>file_count = length fls,
               total_size_mb = py_round (py_truediv total_size (1024 * 1024)) 2\<rparr>, w3))"
proof -
  from assms(1) obtain fs where c: "cache_dir w = Some fs" by auto
  then have f: "files w = fs" by (rule files_Some)
  show ?thesis
    using c assms(2)
    by (simp add: get_cache_stats_def os_path_exists_def os_listdir_def Let_def mp3_names
        mp3_files_def f)
qed

lemma sum_sizes_mp3:
  assumes "wf_world w" and "\<not> list_ex getsize_fails (mp3_files w)" and "files w2 = files w"
  shows "fst (sum_sizes 0 (map fname (mp3_files w)) w2) = Inr (total_bytes w)"
proof -
  have m: "\<And>f. f \<in> set (mp3_files w) \<Longrightarrow> find (\<lambda>g. fname g = fname f) (files w2) = Some f"
    using assms(1,3) by (simp add: wf_world_def mp3_files_def find_distinct_name)
  have "\<forall>n\<in>set (map fname (mp3_files w)).
          \<exists>f. find (\<lambda>g. fname g = n) (files w2) = Some f \<and> \<not> getsize_fails f"
    using m assms(2) by (auto simp: list_ex_iff)
  from sum_sizes_ok [OF this, of 0]
  have "fst (sum_sizes 0 (map fname (mp3_files w)) w2) =
      Inr (sum_list (map (\<lambda>f. length (fdata (the (find (\<lambda>g. fname g = fname f) (files w2)))))
             (mp3_files w)))"
    by (simp add: comp_def)
  also have "map (\<lambda>f. length (fdata (the (find (\<lambda>g. fname g = fname f) (files w2))))) (mp3_files w)
      = map (\<lambda>f. length (fdata f)) (mp3_files w)"
    by (rule map_cong) (simp_all add: m)
  finally show ?thesis by (simp add: total_bytes_def)
qed

lemma get_cache_stats_ok:
  assumes "wf_world w" and "\<not> listdir_fails w" and "\<not> list_ex getsize_fails (mp3_files w)"
  shows "fst (get_cache_stats w) =
      \<lparr>file_count = length (mp3_files w),
       total_size_mb = py_round (py_truediv (total_bytes w) (1024 * 1024)) 2\<rparr>
    \<and> files (snd (get_cache_stats w)) = files w
    \<and> printed (snd (get_cache_stats w)) = printed w"
proof (cases "cache_dir w")
  case None
  then have "mp3_files w = []" by (simp add: mp3_files_def files_def)
  with None show ?thesis
    by (simp add: get_cache_stats_missing total_bytes_def)
next
  case (Some fs)
  let ?w2 = "emit (Call_listdir TTS_CACHE_DIR) (emit (Call_exists TTS_CACHE_DIR) w)"
  have s: "fst (sum_sizes 0 (map fname (mp3_files w)) ?w2) = Inr (total_bytes w)"
    by (rule sum_sizes_mp3 [OF assms(1,3)]) simp
  obtain w3 where p: "sum_sizes 0 (map fname (mp3_files w)) ?w2 = (Inr (total_bytes w), w3)"
    using s by (cases "sum_sizes 0 (map fname (mp3_files w)) ?w2") auto
  have "cache_dir w3 = cache_dir w" "printed w3 = printed w"
    using sum_sizes_cache_dir [of 0 "map fname (mp3_files w)" ?w2]
      sum_sizes_printed [of 0 "map fname (mp3_files w)" ?w2] p by simp_all
  then have "files w3 = files w" "printed w3 = printed w" by (simp_all add: files_def)
  moreover have "cache_dir w \<noteq> None" using Some by simp
  ultimately show ?thesis
    using get_cache_stats_unfold [OF _ assms(2)] p by (simp add: Let_def)
qed

text \<open>Below \<open>2 ^ 53\<close> bytes the division is exact, and the result is the double nearest to
  the quotient rounded to two decimals.\<close>

lemma stats_value_small:
  assumes "n < 2 ^ 53"
  shows "py_round (py_truediv n (1024 * 1024)) 2 =
           nearest_double (round_decimal (of_nat n / (1024 * 1024)) 2)"
    and "\<bar>py_round (py_truediv n (1024 * 1024)) 2 - of_nat n / (1024 * 1024)\<bar>
           \<le> 1 / 200 + 1 / 2 ^ 20"
proof -
  define x :: rat where "x = of_nat n / (1024 * 1024)"
  define r where "r = round_decimal x 2"
  have t: "py_truediv n (1024 * 1024) = x"
    using nearest_double_exact [OF assms] by (simp add: py_truediv_def x_def)
  then show v: "py_round (py_truediv n (1024 * 1024)) 2 =
           nearest_double (round_decimal (of_nat n / (1024 * 1024)) 2)"
    by (simp only: py_round_def x_def)
  have "(of_nat n :: rat) < 2 ^ 53"
    using assms by (metis of_nat_less_iff of_nat_numeral of_nat_power)
  then have x: "0 \<le> x" "x < 2 ^ 33" by (simp_all add: x_def)
  have c: "\<bar>r - x\<bar> \<le> 1 / 200"
    using round_decimal_close [of x 2] by (simp add: r_def)
  have "0 \<le> r" unfolding r_def by (rule round_decimal_nonneg [OF x(1)])
  moreover have "r \<le> x + 1 / 200" using c by linarith
  then have "r < 2 ^ 34" using x(2) by simp
  ultimately have "\<bar>nearest_double r - r\<bar> \<le> 1 / 2 ^ 20"
    by (rule nearest_double_close_small)
  with c have "\<bar>nearest_double r - x\<bar> \<le> 1 / 200 + 1 / 2 ^ 20" by linarith
  then show "\<bar>py_round (py_truediv n (1024 * 1024)) 2 - of_nat n / (1024 * 1024)\<bar>
           \<le> 1 / 200 + 1 / 2 ^ 20"
    unfolding v by (simp add: r_def x_def)
qed

text \<open>
  Claim C7, as amended. When the directory can be listed, the size of each file ending in
  \<open>.mp3\<close> can be read and these sizes sum to less than \<open>2 ^ 53\<close> bytes,
  \<open>get_cache_stats\<close> reports as \<open>file_count\<close> the number of these files and as
  \<open>total_size_mb\<close> the double nearest to the sum divided by \<open>1024 * 1024\<close> and rounded to
  two decimals, that is, to a multiple of \<open>1/100\<close> within \<open>1/200\<close> of the quotient.
\<close>

theorem cache_stats_count_and_size:
  assumes "wf_world w" and "\<not> listdir_fails w" and "\<not> list_ex getsize_fails (mp3_files w)"
    and "total_bytes w < 2 ^ 53"
  shows "file_count (fst (get_cache_stats w)) = length (mp3_files w)
    \<and> total_size_mb (fst (get_cache_stats w)) =
        nearest_double (round_decimal (of_nat (total_bytes w) / (1024 * 1024)) 2)
    \<and> \<bar>round_decimal (of_nat (total_bytes w) / (1024 * 1024)) 2
         - of_nat (total_bytes w) / (1024 * 1024)\<bar> \<le> 1 / 200
    \<and> (\<exists>k::int. round_decimal (of_nat (total_bytes w) / (1024 * 1024)) 2 = of_int k / 100)
    \<and> \<bar>total_size_mb (fst (get_cache_stats w)) - of_nat (total_bytes w) / (1024 * 1024)\<bar>
        \<le> 1 / 200 + 1 / 2 ^ 20"
proof -
  have "\<bar>round_decimal (of_nat (total_bytes w) / (1024 * 1024)) 2
      - of_nat (total_bytes w) / (1024 * 1024)\<bar> \<le> 1 / 200"
    using round_decimal_close [of "of_nat (total_bytes w) / (1024 * 1024)" 2] by simp
  moreover have "\<exists>k::int. round_decimal (of_nat (total_bytes w) / (1024 * 1024)) 2 = of_int k / 100"
    using round_decimal_decimal [of "of_nat (total_bytes w) / (1024 * 1024)" 2] by simp
  ultimately show ?thesis
    using get_cache_stats_ok [OF assms(1-3)] stats_value_small [OF assms(4)] by simp
qed

theorem cache_stats_count_and_size_witness:
  "wf_world (world_of [new_file ''a.mp3'' (blob 131072), new_file ''notes.txt'' [1, 2, 3],
                 new_file ''b.mp3'' (blob 262144)])
   \<and> total_bytes (world_of [new_file ''a.mp3'' (blob 131072), new_file ''notes.txt'' [1, 2, 3],
                 new_file ''b.mp3'' (blob 262144)]) = 393216
   \<and> file_count (fst (get_cache_stats
      (world_of [new_file ''a.mp3'' (blob 131072), new_file ''notes.txt'' [1, 2, 3],
                 new_file ''b.mp3'' (blob 262144)]))) = 2
   \<and> total_size_mb (fst (get_cache_stats
      (world_of [new_file ''a.mp3'' (blob 131072), new_file ''notes.txt'' [1, 2, 3],
                 new_file ''b.mp3'' (blob 262144)]))) = nearest_double (38 / 100)"
  using cache_stats_count_and_size
    [of "world_of [new_file ''a.mp3'' (blob 131072), new_file ''notes.txt'' [1, 2, 3],
                   new_file ''b.mp3'' (blob 262144)]"]
  by (simp add: wf_world_def world_of_def files_def new_file_def mp3_files_def endswith_def
      total_bytes_def blob_def round_decimal_tie)

text \<open>
  Claim C7 as stated fails from \<open>2 ^ 53\<close> bytes on, where the division is no longer exact.
  One file of 9007199254756721 bytes is 8589934592.0156 megabytes, which rounds to
  8589934592.02; the quotient computed is the double below it, 8589934592.01499, and
  \<open>get_cache_stats\<close> reports the double nearest to 8589934592.01.
\<close>

theorem cache_stats_inexact_from_2_53:
  "total_bytes (world_of [new_file ''a.mp3'' (blob 9007199254756721)]) = 9007199254756721
   \<and> round_decimal (of_nat (total_bytes (world_of [new_file ''a.mp3'' (blob 9007199254756721)]))
        / (1024 * 1024)) 2 = 858993459202 / 100
   \<and> total_size_mb (fst (get_cache_stats
        (world_of [new_file ''a.mp3'' (blob 9007199254756721)]))) =
       nearest_double (858993459201 / 100)
   \<and> nearest_double (858993459201 / 100) \<noteq> nearest_double (858993459202 / 100)"
proof -
  let ?w = "world_of [new_file ''a.mp3'' (blob 9007199254756721)]"
  have t: "total_bytes ?w = 9007199254756721"
    by (simp add: total_bytes_def mp3_files_def world_of_def files_def new_file_def endswith_def
        blob_def)
  have "wf_world ?w" "\<not> listdir_fails ?w" "\<not> list_ex getsize_fails (mp3_files ?w)"
    by (simp_all add: wf_world_def mp3_files_def world_of_def files_def new_file_def endswith_def)
  from get_cache_stats_ok [OF this]
  have "total_size_mb (fst (get_cache_stats ?w)) =
      py_round (py_truediv 9007199254756721 (1024 * 1024)) 2"
    by (simp add: t)
  also have "py_truediv 9007199254756721 (1024 * 1024) = 9007199254756720 / (1024 * 1024)"
    using nearest_double_tie_example by (simp add: py_truediv_def del: of_nat_numeral)
       (simp only: of_nat_numeral)
  also have "py_round (9007199254756720 / (1024 * 1024)) 2 = nearest_double (858993459201 / 100)"
    by (simp only: py_round_def round_decimal_below_example)
  finally have s: "total_size_mb (fst (get_cache_stats ?w)) = nearest_double (858993459201 / 100)" .
  have r: "round_decimal (of_nat (total_bytes ?w) / (1024 * 1024)) 2 = 858993459202 / 100"
    using round_decimal_above_example by (simp add: t)
  from t r s nearest_double_distinct_example show ?thesis by blast
qed

subsection \<open>Failures of the file system\<close>

lemma clear_cache_missing:
  "cache_dir w = None \<Longrightarrow> clear_cache mx w = (PyNone, emit (Call_exists TTS_CACHE_DIR) w)"
  by (simp add: clear_cache_def os_path_exists_def lookup_path_def files_def)

lemma clear_cache_unlistable:
  "cache_dir w \<noteq> None \<Longrightarrow> listdir_fails w \<Longrightarrow>
   clear_cache mx w = (PyNone, emit (Print Msg_clear_error) (emit (Call_listdir TTS_CACHE_DIR)
        (emit (Call_exists TTS_CACHE_DIR) w)))"
  by (auto simp: clear_cache_def os_path_exists_def os_listdir_def Let_def)

lemma clear_cache_PyNone [simp]: "fst (clear_cache mx w) = PyNone"
  by (simp add: clear_cache_def Let_def split: prod.splits sum.splits bool.splits)

text \<open>
  Claim C8, as amended. A failure of the file system inside \<open>get_cache_stats\<close> or
  \<open>clear_cache\<close> is caught there. \<open>get_cache_stats\<close> then returns the zero statistics, the
  very value it returns when the directory is missing, and \<open>clear_cache\<close> returns \<open>None\<close>
  as it always does; the failure shows only in the printed line, which is absent when
  nothing fails.
\<close>

theorem io_failures_are_swallowed:
  assumes "cache_dir w \<noteq> None" and "wf_world w"
  shows "(listdir_fails w \<or> list_ex getsize_fails (mp3_files w) \<longrightarrow>
            fst (get_cache_stats w) = \<lparr>file_count = 0, total_size_mb = 0\<rparr>
            \<and> fst (get_cache_stats w) = fst (get_cache_stats no_cache_dir)
            \<and> printed (snd (get_cache_stats w)) = printed w @ [Msg_stats_error])
     \<and> (listdir_fails w
          \<or> (mx = None \<or> the mx < int (length (mp3_files w)))
             \<and> list_ex remove_fails (mp3_files w) \<longrightarrow>
            fst (clear_cache mx w) = PyNone
            \<and> fst (clear_cache mx w) = fst (clear_cache mx no_cache_dir)
            \<and> printed (snd (clear_cache mx w)) = printed w @ [Msg_clear_error])
     \<and> (\<not> listdir_fails w \<and> \<not> list_ex getsize_fails (mp3_files w) \<longrightarrow>
            printed (snd (get_cache_stats w)) = printed w)"
proof (intro conjI impI)
  assume a: "listdir_fails w \<or> list_ex getsize_fails (mp3_files w)"
  have "fst (get_cache_stats w) = \<lparr>file_count = 0, total_size_mb = 0\<rparr>
      \<and> printed (snd (get_cache_stats w)) = printed w @ [Msg_stats_error]"
  proof (cases "listdir_fails w")
    case True
    then show ?thesis by (simp add: get_cache_stats_unlistable [OF assms(1)])
  next
    case False
    let ?w2 = "emit (Call_listdir TTS_CACHE_DIR) (emit (Call_exists TTS_CACHE_DIR) w)"
    let ?ns = "map fname (mp3_files w)"
    from a False obtain f where f: "f \<in> set (mp3_files w)" "getsize_fails f"
      by (auto simp: list_ex_iff)
    then have "find (\<lambda>g. fname g = fname f) (files ?w2) = Some f"
      using assms(2) by (simp add: wf_world_def mp3_files_def find_distinct_name)
    with f have "\<exists>n\<in>set ?ns. \<forall>h. find (\<lambda>g. fname g = n) (files ?w2) = Some h \<longrightarrow> getsize_fails h"
      by (auto intro!: bexI [of _ f])
    from sum_sizes_fails [OF this, of 0] obtain e w3 where p: "sum_sizes 0 ?ns ?w2 = (Inl e, w3)"
      by (cases "sum_sizes 0 ?ns ?w2") auto
    have "printed w3 = printed w"
      using sum_sizes_printed [of 0 ?ns ?w2] p by simp
    then show ?thesis
      using get_cache_stats_unfold [OF assms(1) False] p by (simp add: Let_def)
  qed
  then show "fst (get_cache_stats w) = \<lparr>file_count = 0, total_size_mb = 0\<rparr>"
    and "printed (snd (get_cache_stats w)) = printed w @ [Msg_stats_error]"
    and "fst (get_cache_stats w) = fst (get_cache_stats no_cache_dir)"
    by (simp_all add: get_cache_stats_missing no_cache_dir_def)
next
  assume a: "listdir_fails w \<or> (mx = None \<or> the mx < int (length (mp3_files w)))
             \<and> list_ex remove_fails (mp3_files w)"
  show "fst (clear_cache mx w) = PyNone" by simp
  show "fst (clear_cache mx w) = fst (clear_cache mx no_cache_dir)" by simp
  show "printed (snd (clear_cache mx w)) = printed w @ [Msg_clear_error]"
  proof (cases "listdir_fails w")
    case True
    then show ?thesis by (simp add: clear_cache_unlistable [OF assms(1)])
  next
    case False
    let ?w2 = "emit (Call_listdir TTS_CACHE_DIR) (emit (Call_exists TTS_CACHE_DIR) w)"
    let ?ns = "map fname (mp3_files w)"
    from a False have go: "(mx \<noteq> None \<and> int (length (mp3_files w)) \<le> the mx) = False"
      and ex: "list_ex remove_fails (mp3_files w)" by auto
    have d: "distinct ?ns"
      using assms(2) by (simp add: wf_world_def mp3_files_def distinct_map_filter)
    have d2: "distinct (map fname (files ?w2))"
      using assms(2) by (simp add: wf_world_def)
    have "\<exists>f\<in>set (files ?w2). fname f \<in> set ?ns \<and> remove_fails f"
      using ex by (auto simp: list_ex_iff mp3_files_def)
    from remove_files_fails [OF d d2 this] obtain e w3 where p: "remove_files ?ns ?w2 = (Inl e, w3)"
      by (cases "remove_files ?ns ?w2") auto
    have "printed w3 = printed w"
      using remove_files_printed [of ?ns ?w2] p by simp
    then show ?thesis
      unfolding clear_cache_unfold [OF assms(1) False, of mx] Let_def length_map go using p by simp
  qed
next
  assume "\<not> listdir_fails w \<and> \<not> list_ex getsize_fails (mp3_files w)"
  then show "printed (snd (get_cache_stats w)) = printed w"
    using get_cache_stats_ok [OF assms(2)] by simp
qed

theorem io_failures_are_swallowed_witness:
  "cache_dir (world_of [locked_file ''a.mp3'' [1, 2, 3]]) \<noteq> None
   \<and> wf_world (world_of [locked_file ''a.mp3'' [1, 2, 3]])
   \<and> list_ex getsize_fails (mp3_files (world_of [locked_file ''a.mp3'' [1, 2, 3]]))
   \<and> list_ex remove_fails (mp3_files (world_of [locked_file ''a.mp3'' [1, 2, 3]]))
   \<and> fst (get_cache_stats (world_of [locked_file ''a.mp3'' [1, 2, 3]])) =
       \<lparr>file_count = 0, total_size_mb = 0\<rparr>
   \<and> printed (snd (get_cache_stats (world_of [locked_file ''a.mp3'' [1, 2, 3]]))) =
       [Msg_stats_error]
   \<and> printed (snd (clear_cache None (world_of [locked_file ''a.mp3'' [1, 2, 3]]))) =
       [Msg_clear_error]
   \<and> printed (snd (get_cache_stats (world_of [new_file ''a.mp3'' [1, 2, 3]]))) = []"
  using io_failures_are_swallowed [of "world_of [locked_file ''a.mp3'' [1, 2, 3]]" None]
    io_failures_are_swallowed [of "world_of [new_file ''a.mp3'' [1, 2, 3]]" None]
  by (simp add: wf_world_def world_of_def files_def new_file_def locked_file_def mp3_files_def
      endswith_def printed_def)

text \<open>
  Claim C8 as stated fails: a directory that cannot be listed, or whose file cannot be
  sized or removed, yields the same return values as an empty or missing one.
\<close>

theorem unreadable_cache_looks_empty:
  "fst (get_cache_stats (unlistable (world_of [new_file ''a.mp3'' [1, 2, 3]]))) =
     fst (get_cache_stats (world_of []))
   \<and> fst (get_cache_stats (unlistable (world_of [new_file ''a.mp3'' [1, 2, 3]]))) =
     fst (get_cache_stats no_cache_dir)
   \<and> fst (get_cache_stats (world_of [locked_file ''a.mp3'' [1, 2, 3]])) =
     fst (get_cache_stats no_cache_dir)
   \<and> fst (clear_cache None (world_of [locked_file ''a.mp3'' [1, 2, 3]])) =
     fst (clear_cache None no_cache_dir)
   \<and> files (snd (clear_cache None (world_of [locked_file ''a.mp3'' [1, 2, 3]]))) =
     [locked_file ''a.mp3'' [1, 2, 3]]"
  by (simp add: eval_defs unlistable_def locked_file_def)

subsection \<open>Entries are written once\<close>

lemma files_ensure_cache_dir [simp]: "files (snd (ensure_cache_dir w)) = files w"
  by (cases "cache_dir w")
     (simp_all add: ensure_cache_dir_missing ensure_cache_dir_exists files_def)

lemma tts_files_kept:
  "list_all2 kept (files w)
     (take (length (files w)) (files (snd (text_to_speech sha gtts text language slow w))))"
proof (cases "text = [] \<or> strip text = []")
  case True
  then show ?thesis by (auto simp: text_to_speech_def)
next
  case nb: False
  show ?thesis
  proof (cases "cache_dir w \<noteq> None \<or> \<not> makedirs_fails w")
    case False
    with nb show ?thesis
      by (simp add: text_to_speech_def ensure_cache_dir_missing)
  next
    case av: True
    obtain w1 where e: "ensure_cache_dir w = (Inr (), w1)"
      using ensure_cache_dir_ok(1) [OF av] by (cases "ensure_cache_dir w") auto
    then have f1: "files w1 = files w"
      using files_ensure_cache_dir [of w] by simp
    show ?thesis
    proof (cases "encode_utf8 text")
      case (Inl x)
      with nb e f1 show ?thesis
        by (simp add: text_to_speech_def get_text_hash_def)
    next
      case (Inr bs)
      show ?thesis
      proof (cases "fst (os_path_exists (cache_path sha bs) w)")
        case False
        then have k: "list_all2 kept (files w)
            (take (length (files w)) (write_file (cache_path sha bs) a (files w)))" for a
          unfolding cache_path_def not_exists_iff by (rule write_file_kept)
        from tts_no_hit [OF _ _ Inr False av, of gtts language slow] nb
        show ?thesis
          by (auto simp: Let_def k split: sum.splits tts_object.splits option.splits)
      next
        case True
        from tts_hit [OF _ _ Inr True, of gtts language slow] nb
        show ?thesis by simp
      qed
    qed
  qed
qed

lemma kept_member:
  assumes "list_all2 kept xs (take (length xs) ys)" and "f \<in> set xs" and "\<not> getsize_fails f"
  shows "f \<in> set ys"
proof -
  from assms(2) obtain i where i: "i < length xs" "xs ! i = f"
    by (auto simp: in_set_conv_nth)
  from assms(1) i(1) have "kept (xs ! i) (take (length xs) ys ! i)"
    and l: "length (take (length xs) ys) = length xs"
    by (auto simp: list_all2_conv_all_nth)
  with i assms(3) have "take (length xs) ys ! i = f" by (simp add: kept_def)
  moreover have "take (length xs) ys ! i \<in> set (take (length xs) ys)"
    using i(1) l by (metis nth_mem)
  ultimately show ?thesis by (auto dest: in_set_takeD)
qed

lemma tts_bytes_files:
  "files (snd (text_to_speech_bytes sha gtts text language slow w)) =
   files (snd (text_to_speech sha gtts text language slow w))"
  by (simp add: text_to_speech_bytes_def os_path_exists_def open_read_def Let_def
      split: prod.splits sum.splits option.splits bool.splits)

lemma clear_cache_subseq: "subseq (files (snd (clear_cache mx w))) (files w)"
proof (cases "cache_dir w \<noteq> None \<and> \<not> listdir_fails w")
  case True
  let ?w2 = "emit (Call_listdir TTS_CACHE_DIR) (emit (Call_exists TTS_CACHE_DIR) w)"
  have "subseq (files (snd (remove_files (map fname (mp3_files w)) ?w2))) (files w)"
    using remove_files_subseq [of "map fname (mp3_files w)" ?w2] by simp
  then show ?thesis
    using True by (simp add: clear_cache_unfold Let_def split_beta split: sum.splits)
next
  case False
  then show ?thesis
    by (cases "cache_dir w") (auto simp: clear_cache_missing clear_cache_unlistable)
qed

lemma get_cache_stats_files [simp]: "files (snd (get_cache_stats w)) = files w"
proof (cases "cache_dir w \<noteq> None \<and> \<not> listdir_fails w")
  case True
  let ?w2 = "emit (Call_listdir TTS_CACHE_DIR) (emit (Call_exists TTS_CACHE_DIR) w)"
  have "cache_dir (snd (sum_sizes 0 (map fname (mp3_files w)) ?w2)) = cache_dir w"
    by simp
  then have "files (snd (sum_sizes 0 (map fname (mp3_files w)) ?w2)) = files w"
    by (simp add: files_def)
  then show ?thesis
    using True by (simp add: get_cache_stats_unfold Let_def split_beta split: sum.splits)
next
  case False
  then show ?thesis
    by (cases "cache_dir w") (auto simp: get_cache_stats_missing get_cache_stats_unlistable)
qed

text \<open>
  Claim C9. No function of the module changes an entry that exists. After
  \<open>text_to_speech\<close> and \<open>text_to_speech_bytes\<close> every old entry is found in its place
  under its name, and it is the very same entry, bytes included, whenever it existed for
  \<open>os.path.exists\<close>; new entries come after the old ones. \<open>get_cache_stats\<close> and
  \<open>ensure_cache_dir\<close> leave the entries as they are; \<open>clear_cache\<close> only deletes, what is
  left being unchanged. When the path of the key exists, \<open>text_to_speech\<close> returns it and
  leaves every entry untouched.
\<close>

theorem entries_are_never_rewritten:
  "list_all2 kept (files w)
     (take (length (files w)) (files (snd (text_to_speech sha gtts text language slow w))))
   \<and> list_all2 kept (files w)
     (take (length (files w)) (files (snd (text_to_speech_bytes sha gtts text language slow w))))
   \<and> (\<forall>f\<in>set (files w). \<not> getsize_fails f \<longrightarrow>
         f \<in> set (files (snd (text_to_speech sha gtts text language slow w)))
         \<and> f \<in> set (files (snd (text_to_speech_bytes sha gtts text language slow w))))
   \<and> files (snd (get_cache_stats w)) = files w
   \<and> files (snd (ensure_cache_dir w)) = files w
   \<and> subseq (files (snd (clear_cache mx w))) (files w)
   \<and> (text \<noteq> [] \<and> strip text \<noteq> [] \<and> encode_utf8 text = Inr bs
        \<and> fst (os_path_exists (cache_path sha bs) w) \<longrightarrow>
        fst (text_to_speech sha gtts text language slow w) = Inr (Some (cache_path sha bs))
        \<and> files (snd (text_to_speech sha gtts text language slow w)) = files w)"
proof (intro conjI impI ballI)
  show k: "list_all2 kept (files w)
     (take (length (files w)) (files (snd (text_to_speech sha gtts text language slow w))))"
    by (rule tts_files_kept)
  show kb: "list_all2 kept (files w)
     (take (length (files w)) (files (snd (text_to_speech_bytes sha gtts text language slow w))))"
    by (simp add: tts_bytes_files tts_files_kept)
  show "files (snd (get_cache_stats w)) = files w" by simp
  show "files (snd (ensure_cache_dir w)) = files w" by simp
  show "subseq (files (snd (clear_cache mx w))) (files w)" by (rule clear_cache_subseq)
  fix f assume f: "f \<in> set (files w)" "\<not> getsize_fails f"
  show "f \<in> set (files (snd (text_to_speech sha gtts text language slow w)))"
    by (rule kept_member [OF k f])
  show "f \<in> set (files (snd (text_to_speech_bytes sha gtts text language slow w)))"
    by (rule kept_member [OF kb f])
next
  assume a: "text \<noteq> [] \<and> strip text \<noteq> [] \<and> encode_utf8 text = Inr bs
        \<and> fst (os_path_exists (cache_path sha bs) w)"
  then have h: "text_to_speech sha gtts text language slow w =
     (Inr (Some (cache_path sha bs)),
      emit (Call_exists (cache_path sha bs)) (emit (Call_sha256 bs)
        (emit (Call_exists TTS_CACHE_DIR) w)))"
    using tts_hit [of "text" bs sha w gtts language slow] by simp
  show "fst (text_to_speech sha gtts text language slow w) = Inr (Some (cache_path sha bs))"
    using h by simp
  show "files (snd (text_to_speech sha gtts text language slow w)) = files w"
    using h by simp
qed

theorem entries_are_never_rewritten_witness:
  "fst (os_path_exists (cache_path hex_digest [72, 105])
         (world_of [new_file ''00.mp3'' [7], new_file ''4869.mp3'' [1, 2]]))
   \<and> fst (text_to_speech hex_digest (backend_of (Inr (Save_ok [9, 9]))) [72, 105] ''en'' False
        (world_of [new_file ''00.mp3'' [7], new_file ''4869.mp3'' [1, 2]])) =
       Inr (Some ''tts_cache/4869.mp3'')
   \<and> files (snd (text_to_speech hex_digest (backend_of (Inr (Save_ok [9, 9]))) [72, 105] ''en''
        False (world_of [new_file ''00.mp3'' [7], new_file ''4869.mp3'' [1, 2]]))) =
       [new_file ''00.mp3'' [7], new_file ''4869.mp3'' [1, 2]]
   \<and> new_file ''00.mp3'' [7] \<in> set (files (snd (text_to_speech hex_digest
        (backend_of (Inr (Save_ok [9, 9]))) [72, 105] ''en'' False
        (world_of [new_file ''00.mp3'' [7], locked_file ''4869.mp3'' [1, 2]]))))"
  using entries_are_never_rewritten
    [of "world_of [new_file ''00.mp3'' [7], new_file ''4869.mp3'' [1, 2]]" hex_digest
        "backend_of (Inr (Save_ok [9, 9]))" "[72, 105]" "''en''" False None "[72, 105]"]
    entries_are_never_rewritten
    [of "world_of [new_file ''00.mp3'' [7], locked_file ''4869.mp3'' [1, 2]]" hex_digest
        "backend_of (Inr (Save_ok [9, 9]))" "[72, 105]" "''en''" False None "[72, 105]"]
  by (simp add: cache_path_def hex_digest_def lookup_path_def os_path_join_def TTS_CACHE_DIR_def
      world_of_def files_def new_file_def strip_def isspace_def utf8_char_def os_path_exists_def)

subsection \<open>Only \<open>.mp3\<close> files\<close>

lemma clear_cache_other_files: "other_files (snd (clear_cache mx w)) = other_files w"
proof (cases "cache_dir w \<noteq> None \<and> \<not> listdir_fails w")
  case True
  let ?w2 = "emit (Call_listdir TTS_CACHE_DIR) (emit (Call_exists TTS_CACHE_DIR) w)"
  have "\<forall>n\<in>set (map fname (mp3_files w)). \<not> \<not> endswith n ''.mp3''"
    by (auto simp: mp3_files_def)
  from remove_files_frame [of "map fname (mp3_files w)" "\<lambda>n. \<not> endswith n ''.mp3''" ?w2, OF this]
  have "other_files (snd (remove_files (map fname (mp3_files w)) ?w2)) = other_files w"
    by (simp add: other_files_def)
  then show ?thesis
    using True by (simp add: clear_cache_unfold Let_def split_beta split: sum.splits)
next
  case False
  then show ?thesis
    by (cases "cache_dir w") (auto simp: clear_cache_missing clear_cache_unlistable)
qed

lemma find_filter_implied:
  "(\<And>x. P x \<Longrightarrow> Q x) \<Longrightarrow> find P (filter Q xs) = find P xs"
  by (induction xs) auto

lemma files_only_mp3 [simp]: "files (only_mp3 w) = mp3_files w"
  by (cases "cache_dir w") (simp_all add: only_mp3_def files_def mp3_files_def)

lemma mp3_files_only_mp3 [simp]: "mp3_files (only_mp3 w) = mp3_files w"
  unfolding mp3_files_def [of "only_mp3 w"] files_only_mp3 by (simp add: mp3_files_def)

lemma get_cache_stats_only_mp3: "fst (get_cache_stats (only_mp3 w)) = fst (get_cache_stats w)"
proof (cases "cache_dir w")
  case None
  then have "cache_dir (only_mp3 w) = None" by (simp add: only_mp3_def)
  with None show ?thesis by (simp add: get_cache_stats_missing)
next
  case (Some fs)
  then have c: "cache_dir w \<noteq> None" "cache_dir (only_mp3 w) \<noteq> None"
    by (simp_all add: only_mp3_def)
  have l: "listdir_fails (only_mp3 w) = listdir_fails w" by (simp add: only_mp3_def)
  show ?thesis
  proof (cases "listdir_fails w")
    case True
    with c l show ?thesis by (simp add: get_cache_stats_unlistable)
  next
    case False
    let ?ns = "map fname (mp3_files w)"
    let ?w2 = "emit (Call_listdir TTS_CACHE_DIR) (emit (Call_exists TTS_CACHE_DIR) w)"
    let ?v2 = "emit (Call_listdir TTS_CACHE_DIR) (emit (Call_exists TTS_CACHE_DIR) (only_mp3 w))"
    have "\<forall>n\<in>set ?ns. find (\<lambda>g. fname g = n) (files ?v2) = find (\<lambda>g. fname g = n) (files ?w2)"
      by (auto simp: mp3_files_def intro!: find_filter_implied)
    from sum_sizes_cong [OF this, of 0]
    have "fst (sum_sizes 0 ?ns ?v2) = fst (sum_sizes 0 ?ns ?w2)" .
    then show ?thesis
      using False l c
      by (simp add: get_cache_stats_unfold Let_def split_beta split: sum.splits)
  qed
qed

text \<open>
  Claim C10. \<open>clear_cache\<close> leaves every file whose name does not end in \<open>.mp3\<close> in
  place and unchanged, and removes nothing but entries; \<open>get_cache_stats\<close> returns what
  it would return were those other files not there. When the cache directory does not
  exist, \<open>clear_cache\<close> returns after the one existence check, with no error and nothing
  printed, and \<open>get_cache_stats\<close> returns the zero statistics.
\<close>

theorem only_mp3_files_are_considered:
  "other_files (snd (clear_cache mx w)) = other_files w
   \<and> subseq (files (snd (clear_cache mx w))) (files w)
   \<and> fst (get_cache_stats w) = fst (get_cache_stats (only_mp3 w))
   \<and> (cache_dir w = None \<longrightarrow>
        clear_cache mx w = (PyNone, w\<lparr>trace := trace w @ [Call_exists TTS_CACHE_DIR]\<rparr>)
        \<and> get_cache_stats w =
            (\<lparr>file_count = 0, total_size_mb = 0\<rparr>,
             w\<lparr>trace := trace w @ [Call_exists TTS_CACHE_DIR]\<rparr>))"
  by (simp add: clear_cache_other_files clear_cache_subseq get_cache_stats_only_mp3
      clear_cache_missing get_cache_stats_missing emit_def)

theorem only_mp3_files_are_considered_witness:
  "other_files (snd (clear_cache None
      (world_of [new_file ''a.mp3'' [1], new_file ''b.txt'' [2], new_file ''mp3'' [3]]))) =
     [new_file ''b.txt'' [2], new_file ''mp3'' [3]]
   \<and> fst (get_cache_stats
      (world_of [new_file ''a.mp3'' [1], new_file ''b.txt'' [2], new_file ''mp3'' [3]])) =
     fst (get_cache_stats (world_of [new_file ''a.mp3'' [1]]))
   \<and> cache_dir no_cache_dir = None
   \<and> clear_cache None no_cache_dir =
       (PyNone, no_cache_dir\<lparr>trace := [Call_exists TTS_CACHE_DIR]\<rparr>)
   \<and> get_cache_stats no_cache_dir =
       (\<lparr>file_count = 0, total_size_mb = 0\<rparr>, no_cache_dir\<lparr>trace := [Call_exists TTS_CACHE_DIR]\<rparr>)"
  using only_mp3_files_are_considered
      [of None "world_of [new_file ''a.mp3'' [1], new_file ''b.txt'' [2], new_file ''mp3'' [3]]"]
    only_mp3_files_are_considered [of None no_cache_dir]
  by (simp add: other_files_def only_mp3_def world_of_def files_def new_file_def endswith_def
      no_cache_dir_def)

end
